theory Spec2Isabelle
  imports Main "HOL-Library.Char_ord" "HOL-Library.List_Lexorder" "HOL-Library.AList"
begin

unbundle bit_operations_syntax

section \<open>Bytes, text and errors\<close>

text \<open>
  A Python \<^verbatim>\<open>bytes\<close> value is a list of 8-bit characters. A Python \<^verbatim>\<open>str\<close> is
  represented by its UTF-8 encoding, so \<^verbatim>\<open>.encode()\<close> is the identity on the
  representation and \<^verbatim>\<open>.decode()\<close> only checks that the bytes are well-formed UTF-8.
  Indexing a \<^verbatim>\<open>bytes\<close> value yields an unbounded integer, here a natural number.
\<close>

type_synonym bytes = "char list"

datatype error =
    IndexError
  | ValueError
  | UnicodeDecodeError
  | OverflowError
  | FileNotFoundError
  | FileExistsError
  | NotADirectoryError
  | IsADirectoryError
  | ZlibError
  | RuntimeError
  | RecursionError
  | Unmodelled

definition byte_at :: "bytes \<Rightarrow> nat \<Rightarrow> error + nat" where
  "byte_at bs i = (if i < length bs then Inr (of_char (bs ! i)) else Inl IndexError)"

definition slice :: "nat \<Rightarrow> nat \<Rightarrow> 'a list \<Rightarrow> 'a list" where
  \<comment> \<open>\<^verbatim>\<open>xs[a:b]\<close> for non-negative bounds: out-of-range bounds are clipped, never an error.\<close>
  "slice a b xs = drop a (take b xs)"

section \<open>Pack decoder: the two size decoders\<close>

text \<open>
  \<^verbatim>\<open>next_size_and_type\<close> and \<^verbatim>\<open>next_size\<close> run the same \<^verbatim>\<open>while\<close> loop; they differ
  in the bits taken from the first byte and in the first shift. The loop reads
  \<^verbatim>\<open>bs[index - 1]\<close> for the continuation bit and \<^verbatim>\<open>bs[index]\<close> for the next seven bits;
  either read raises \<^verbatim>\<open>IndexError\<close> past the end of the input.
\<close>

function size_loop :: "bytes \<Rightarrow> nat \<Rightarrow> nat \<Rightarrow> nat \<Rightarrow> error + (nat \<times> nat)" where
  "size_loop bs sz index off =
     (case byte_at bs (index - 1) of
        Inl e \<Rightarrow> Inl e
      | Inr prev \<Rightarrow>
          if prev AND 0x80 \<noteq> 0 then
            (case byte_at bs index of
               Inl e \<Rightarrow> Inl e
             | Inr b \<Rightarrow> size_loop bs (sz + push_bit off (b AND 0x7F)) (index + 1) (off + 7))
          else Inr (sz, index))"
  by pat_completeness auto
termination
  by (relation "measure (\<lambda>(bs, sz, index, off). length bs - index)")
     (auto simp: byte_at_def split: if_splits)

declare size_loop.simps [simp del]

definition type_name :: "nat \<Rightarrow> string" where
  "type_name ty =
     (if ty = 1 then ''commit''
      else if ty = 2 then ''tree''
      else if ty = 3 then ''blob''
      else if ty = 4 then ''tag''
      else if ty = 6 then ''ofs_delta''
      else if ty = 7 then ''ref_delta''
      else ''unknown'')"

definition next_size_and_type :: "bytes \<Rightarrow> error + (string \<times> nat \<times> bytes)" where
  "next_size_and_type bs =
     (case byte_at bs 0 of
        Inl e \<Rightarrow> Inl e
      | Inr b0 \<Rightarrow>
          (case size_loop bs (b0 AND 0x0F) 1 4 of
             Inl e \<Rightarrow> Inl e
           | Inr (sz, index) \<Rightarrow>
               Inr (type_name (drop_bit 4 (b0 AND 0x70)), sz, drop index bs)))"

definition next_size :: "bytes \<Rightarrow> error + (nat \<times> bytes)" where
  "next_size bs =
     (case byte_at bs 0 of
        Inl e \<Rightarrow> Inl e
      | Inr b0 \<Rightarrow>
          (case size_loop bs (b0 AND 0x7F) 1 7 of
             Inl e \<Rightarrow> Inl e
           | Inr (sz, index) \<Rightarrow> Inr (sz, drop index bs)))"

subsection \<open>The encodings as the format describes them\<close>

text \<open>
  A well-formed encoding is a first byte followed by continuation bytes, the
  continuation bit (the most significant bit) set on every byte but the last.
\<close>

fun continues :: "char \<Rightarrow> bytes \<Rightarrow> bool" where
  "continues p [] = ((of_char p :: nat) AND 0x80 = 0)"
| "continues p (c # cs) = ((of_char p :: nat) AND 0x80 \<noteq> 0 \<and> continues c cs)"

fun wellformed_size :: "bytes \<Rightarrow> bool" where
  "wellformed_size [] = False"
| "wellformed_size (b # cs) = continues b cs"

text \<open>Seven bits per continuation byte, little-endian, the first at shift \<open>off\<close>.\<close>

fun continuation_bits :: "nat \<Rightarrow> bytes \<Rightarrow> nat" where
  "continuation_bits off [] = 0"
| "continuation_bits off (c # cs) =
     push_bit off (of_char c AND 0x7F) + continuation_bits (off + 7) cs"

definition header_type_code :: "bytes \<Rightarrow> nat" where
  \<comment> \<open>bits 6..4 of the first byte\<close>
  "header_type_code enc = drop_bit 4 (of_char (hd enc)) AND 7"

definition header_size :: "bytes \<Rightarrow> nat" where
  \<comment> \<open>bits 3..0 of the first byte, then continuation bytes at shifts 4, 11, 18, ...\<close>
  "header_size enc = (of_char (hd enc) AND 0x0F) + continuation_bits 4 (tl enc)"

definition delta_size :: "bytes \<Rightarrow> nat" where
  \<comment> \<open>bits 6..0 of the first byte, then continuation bytes at shifts 7, 14, ...\<close>
  "delta_size enc = (of_char (hd enc) AND 0x7F) + continuation_bits 7 (tl enc)"

section \<open>Pack decoder: applying a delta\<close>

text \<open>
  The two \<^verbatim>\<open>for\<close> loops of a copy instruction: for each \<open>i\<close> of the range, when bit
  \<open>bit0 + i\<close> of the instruction byte is set, the byte at \<^verbatim>\<open>data_ptr\<close> is or-ed in at
  shift \<open>8 * i\<close> and \<^verbatim>\<open>data_ptr\<close> advances. The offset uses \<open>bit0 = 0\<close> and the range
  \<open>0..3\<close>, the size \<open>bit0 = 4\<close> and the range \<open>0..2\<close>.
\<close>

fun copy_field :: "bytes \<Rightarrow> nat \<Rightarrow> nat list \<Rightarrow> nat \<Rightarrow> nat \<Rightarrow> error + (nat \<times> nat)" where
  "copy_field content bit0 [] v data_ptr = Inr (v, data_ptr)"
| "copy_field content bit0 (i # is) v data_ptr =
     (case byte_at content 0 of
        Inl e \<Rightarrow> Inl e
      | Inr c0 \<Rightarrow>
          if c0 AND push_bit (bit0 + i) 1 \<noteq> 0 then
            (case byte_at content data_ptr of
               Inl e \<Rightarrow> Inl e
             | Inr b \<Rightarrow> copy_field content bit0 is (v OR push_bit (i * 8) b) (data_ptr + 1))
          else copy_field content bit0 is v data_ptr)"

definition copy_args :: "bytes \<Rightarrow> error + (nat \<times> nat \<times> nat)" where
  \<comment> \<open>offset, size and the final \<^verbatim>\<open>data_ptr\<close> of the copy instruction at the head of \<open>content\<close>\<close>
  "copy_args content =
     (case copy_field content 0 [0, 1, 2, 3] 0 1 of
        Inl e \<Rightarrow> Inl e
      | Inr (offset, data_ptr) \<Rightarrow>
          (case copy_field content 4 [0, 1, 2] 0 data_ptr of
             Inl e \<Rightarrow> Inl e
           | Inr (sz, data_ptr') \<Rightarrow> Inr (offset, sz, data_ptr')))"

lemma copy_field_ptr_mono:
  "copy_field content bit0 is v p = Inr (v', p') \<Longrightarrow> p \<le> p'"
proof (induction "is" arbitrary: v p)
  case Nil
  then show ?case by simp
next
  case (Cons i "is")
  then show ?case
    by (fastforce split: sum.splits if_splits)
qed

lemma copy_args_ptr_pos:
  assumes "copy_args content = Inr (offset, sz, p)"
  shows "1 \<le> p"
proof -
  from assms obtain p0 where a: "copy_field content 0 [0, 1, 2, 3] 0 1 = Inr (offset, p0)"
    and b: "copy_field content 4 [0, 1, 2] 0 p0 = Inr (sz, p)"
    by (auto simp: copy_args_def split: sum.splits)
  from copy_field_ptr_mono [OF a] copy_field_ptr_mono [OF b] show ?thesis
    by simp
qed

function apply_instructions :: "bytes \<Rightarrow> bytes \<Rightarrow> bytes \<Rightarrow> error + bytes" where
  "apply_instructions base_content content target_content =
     (if content = [] then Inr target_content
      else if (of_char (hd content) :: nat) AND 0x80 \<noteq> 0 then
        (case copy_args content of
           Inl e \<Rightarrow> Inl e
         | Inr (offset, sz, data_ptr) \<Rightarrow>
             apply_instructions base_content (drop data_ptr content)
               (target_content @ slice offset (offset + sz) base_content))
      else
        apply_instructions base_content (drop (of_char (hd content) + 1) content)
          (target_content @ slice 1 (of_char (hd content) + 1) content))"
  by pat_completeness auto
termination
  by (relation "measure (\<lambda>(base_content, content, target_content). length content)")
     (auto dest!: copy_args_ptr_pos)

declare apply_instructions.simps [simp del]

definition apply_delta :: "bytes \<Rightarrow> bytes \<Rightarrow> error + bytes" where
  \<comment> \<open>skip the base and result sizes, then run the instructions from an empty target\<close>
  "apply_delta base_content content =
     (case next_size content of
        Inl e \<Rightarrow> Inl e
      | Inr (_, content1) \<Rightarrow>
          (case next_size content1 of
             Inl e \<Rightarrow> Inl e
           | Inr (_, content2) \<Rightarrow> apply_instructions base_content content2 []))"

section \<open>Text helpers\<close>

text \<open>\<^verbatim>\<open>str(n)\<close> for a length, \<^verbatim>\<open>bytes.hex()\<close>, and \<^verbatim>\<open>int(sha, 16).to_bytes(20, "big")\<close>.\<close>

definition digit_char :: "nat \<Rightarrow> char" where
  "digit_char d = ''0123456789abcdef'' ! d"

function str_nat :: "nat \<Rightarrow> string" where
  "str_nat n = (if n < 10 then [digit_char n] else str_nat (n div 10) @ [digit_char (n mod 10)])"
  by pat_completeness auto
termination
  by (relation "measure id") auto

declare str_nat.simps [simp del]

definition hex :: "bytes \<Rightarrow> string" where
  "hex bs = concat (map (\<lambda>c. [digit_char (of_char c div 16), digit_char (of_char c mod 16)]) bs)"

definition hex_value :: "char \<Rightarrow> nat option" where
  "hex_value c =
     (let n = (of_char c :: nat) in
      if 48 \<le> n \<and> n \<le> 57 then Some (n - 48)
      else if 97 \<le> n \<and> n \<le> 102 then Some (n - 87)
      else if 65 \<le> n \<and> n \<le> 70 then Some (n - 55)
      else None)"

fun int16_loop :: "nat \<Rightarrow> string \<Rightarrow> error + nat" where
  "int16_loop acc [] = Inr acc"
| "int16_loop acc (c # cs) =
     (case hex_value c of
        None \<Rightarrow> Inl Unmodelled
      | Some d \<Rightarrow> int16_loop (16 * acc + d) cs)"

definition int16 :: "string \<Rightarrow> error + nat" where
  \<comment> \<open>\<^verbatim>\<open>int(s, 16)\<close> on a non-empty string of hexadecimal digits. Python also accepts a
      sign, a \<^verbatim>\<open>0x\<close> prefix, underscores and blanks, and raises \<^verbatim>\<open>ValueError\<close> on the
      rest: those strings are outside the model.\<close>
  "int16 s = (if s = [] then Inl Unmodelled else int16_loop 0 s)"

definition to_bytes20 :: "nat \<Rightarrow> error + bytes" where
  \<comment> \<open>\<^verbatim>\<open>n.to_bytes(20, byteorder="big")\<close>: byte \<open>i\<close> from the right is \<^verbatim>\<open>(n >> 8 * i) & 0xFF\<close>\<close>
  "to_bytes20 n =
     (if n < 2 ^ 160
      then Inr (map (\<lambda>i. char_of (take_bit 8 (drop_bit (8 * i) n)))
                  [19, 18, 17, 16, 15, 14, 13, 12, 11, 10, 9, 8, 7, 6, 5, 4, 3, 2, 1, 0])
      else Inl OverflowError)"

text \<open>
  \<^verbatim>\<open>bs.split(sep, maxsplit=1)\<close> unpacked into two names: \<^verbatim>\<open>ValueError\<close> when
  \<open>sep\<close> does not occur. \<^verbatim>\<open>bs.split(sep)\<close> cuts at every occurrence.
\<close>

definition split_once :: "char \<Rightarrow> bytes \<Rightarrow> error + (bytes \<times> bytes)" where
  "split_once sep bs =
     (if sep \<in> set bs
      then Inr (takeWhile (\<lambda>c. c \<noteq> sep) bs, tl (dropWhile (\<lambda>c. c \<noteq> sep) bs))
      else Inl ValueError)"

fun split_all :: "char \<Rightarrow> bytes \<Rightarrow> bytes list" where
  "split_all sep [] = [[]]"
| "split_all sep (c # cs) =
     (if c = sep then [] # split_all sep cs
      else (case split_all sep cs of
              [] \<Rightarrow> [[c]]
            | p # ps \<Rightarrow> (c # p) # ps))"

text \<open>
  \<^verbatim>\<open>bytes.decode()\<close>: strict UTF-8. The byte values of a well-formed sequence, by the
  first byte of each character.
\<close>

definition cont_byte :: "nat \<Rightarrow> bool" where
  "cont_byte b = (0x80 \<le> b \<and> b \<le> 0xBF)"

fun utf8_wellformed :: "nat list \<Rightarrow> bool" where
  "utf8_wellformed [] = True"
| "utf8_wellformed (a # bs) =
     (if a < 0x80 then utf8_wellformed bs
      else if 0xC2 \<le> a \<and> a \<le> 0xDF then
        (case bs of b # r \<Rightarrow> cont_byte b \<and> utf8_wellformed r | _ \<Rightarrow> False)
      else if 0xE0 \<le> a \<and> a \<le> 0xEF then
        (case bs of
           b # c # r \<Rightarrow>
             (if a = 0xE0 then 0xA0 \<le> b \<and> b \<le> 0xBF
              else if a = 0xED then 0x80 \<le> b \<and> b \<le> 0x9F
              else cont_byte b)
             \<and> cont_byte c \<and> utf8_wellformed r
         | _ \<Rightarrow> False)
      else if 0xF0 \<le> a \<and> a \<le> 0xF4 then
        (case bs of
           b # c # d # r \<Rightarrow>
             (if a = 0xF0 then 0x90 \<le> b \<and> b \<le> 0xBF
              else if a = 0xF4 then 0x80 \<le> b \<and> b \<le> 0x8F
              else cont_byte b)
             \<and> cont_byte c \<and> cont_byte d \<and> utf8_wellformed r
         | _ \<Rightarrow> False)
      else False)"

definition decode :: "bytes \<Rightarrow> error + string" where
  "decode bs = (if utf8_wellformed (map of_char bs) then Inr bs else Inl UnicodeDecodeError)"

section \<open>The file system\<close>

text \<open>
  A path is the list of its components from the root; a file system lists the node
  at each path, a directory or a regular file with its bytes (no links, no permissions).
  The process's working directory never changes, so every relative path of the source
  is taken from \<open>cwd\<close>. A component that is not a plain name (empty, \<^verbatim>\<open>.\<close>, \<^verbatim>\<open>..\<close>, or
  holding \<^verbatim>\<open>/\<close> or NUL) is outside the model: every operation answers \<open>Unmodelled\<close>
  on such a path.
\<close>

type_synonym path = "string list"

datatype node = File bytes | Dir

type_synonym filesystem = "(path \<times> node) list"

definition plain_name :: "string \<Rightarrow> bool" where
  "plain_name s =
     (s \<noteq> [] \<and> s \<noteq> ''.'' \<and> s \<noteq> ''..'' \<and> CHR ''/'' \<notin> set s \<and> CHR 0x00 \<notin> set s)"

definition path_join :: "path \<Rightarrow> string \<Rightarrow> path" where
  \<comment> \<open>\<^verbatim>\<open>p / s\<close>: pathlib drops an empty segment and a \<^verbatim>\<open>.\<close> segment\<close>
  "path_join p s = (if s = [] \<or> s = ''.'' then p else p @ [s])"

text \<open>Resolving a path from the root, one component at a time.\<close>

fun walk :: "filesystem \<Rightarrow> path \<Rightarrow> string list \<Rightarrow> error + node" where
  "walk fs pre [] = Inr Dir"
| "walk fs pre [c] =
     (case map_of fs (pre @ [c]) of
        None \<Rightarrow> Inl FileNotFoundError
      | Some n \<Rightarrow> Inr n)"
| "walk fs pre (c # cs) =
     (case map_of fs (pre @ [c]) of
        None \<Rightarrow> Inl FileNotFoundError
      | Some Dir \<Rightarrow> walk fs (pre @ [c]) cs
      | Some (File _) \<Rightarrow> Inl NotADirectoryError)"

definition stat :: "filesystem \<Rightarrow> path \<Rightarrow> error + node" where
  "stat fs p = (if list_all plain_name p then walk fs [] p else Inl Unmodelled)"

definition isfile :: "filesystem \<Rightarrow> path \<Rightarrow> bool" where
  \<comment> \<open>\<^verbatim>\<open>os.path.isfile\<close>: false on every error\<close>
  "isfile fs p = (case stat fs p of Inr (File _) \<Rightarrow> True | _ \<Rightarrow> False)"

definition read_bytes :: "path \<Rightarrow> filesystem \<Rightarrow> error + bytes" where
  "read_bytes p fs =
     (case stat fs p of
        Inl e \<Rightarrow> Inl e
      | Inr Dir \<Rightarrow> Inl IsADirectoryError
      | Inr (File bs) \<Rightarrow> Inr bs)"

definition write_bytes :: "path \<Rightarrow> bytes \<Rightarrow> filesystem \<Rightarrow> error + filesystem" where
  \<comment> \<open>opening for writing creates the file in an existing directory or truncates it\<close>
  "write_bytes p data fs =
     (case stat fs p of
        Inr Dir \<Rightarrow> Inl IsADirectoryError
      | Inr (File _) \<Rightarrow> Inr (AList.update p (File data) fs)
      | Inl e \<Rightarrow>
          if e = FileNotFoundError \<and> stat fs (butlast p) = Inr Dir
          then Inr (AList.update p (File data) fs)
          else Inl e)"

text \<open>
  \<^verbatim>\<open>Path.mkdir(parents=True, exist_ok=True)\<close>: every missing directory on the way is
  created; an existing directory is accepted; a regular file in the way fails.
\<close>

fun mkdir_walk :: "path \<Rightarrow> string list \<Rightarrow> filesystem \<Rightarrow> error + filesystem" where
  "mkdir_walk pre [] fs = Inr fs"
| "mkdir_walk pre (c # cs) fs =
     (case map_of fs (pre @ [c]) of
        None \<Rightarrow> mkdir_walk (pre @ [c]) cs (AList.update (pre @ [c]) Dir fs)
      | Some Dir \<Rightarrow> mkdir_walk (pre @ [c]) cs fs
      | Some (File _) \<Rightarrow> Inl (if cs = [] then FileExistsError else NotADirectoryError))"

definition mkdir_parents_exist_ok :: "path \<Rightarrow> filesystem \<Rightarrow> error + filesystem" where
  "mkdir_parents_exist_ok p fs =
     (if list_all plain_name p then mkdir_walk [] p fs else Inl Unmodelled)"

definition listdir :: "filesystem \<Rightarrow> path \<Rightarrow> error + string list" where
  \<comment> \<open>the names of the children, in the order the file system holds them\<close>
  "listdir fs p =
     (case stat fs p of
        Inl e \<Rightarrow> Inl e
      | Inr (File _) \<Rightarrow> Inl NotADirectoryError
      | Inr Dir \<Rightarrow> Inr (map (last \<circ> fst) (filter (\<lambda>(q, n). q \<noteq> [] \<and> butlast q = p) fs)))"

text \<open>
  The paths strictly below \<open>pre\<close> on the way to \<open>pre @ cs\<close>, nearest first; with
  \<open>pre = []\<close>, the non-empty prefixes of a path.
\<close>

fun below :: "path \<Rightarrow> string list \<Rightarrow> path list" where
  "below pre [] = []"
| "below pre (c # cs) = (pre @ [c]) # below (pre @ [c]) cs"

definition no_file_at :: "filesystem \<Rightarrow> path \<Rightarrow> bool" where
  "no_file_at fs q = (case map_of fs q of Some (File _) \<Rightarrow> False | _ \<Rightarrow> True)"

definition can_store :: "filesystem \<Rightarrow> path \<Rightarrow> bool" where
  \<comment> \<open>a file can be put at \<open>p\<close> after creating the missing directories above it: no
      regular file stands in the place of one of these directories, and no directory
      stands at \<open>p\<close> itself\<close>
  "can_store fs p =
     (list_all plain_name p \<and> list_all (no_file_at fs) (below [] (butlast p))
      \<and> map_of fs p \<noteq> Some Dir)"

section \<open>Hashing and compression\<close>

text \<open>
  SHA-1 and zlib are libraries the program calls; they are parameters of the model.
  \<open>zlib_compress\<close> takes the compression level, \<open>zlib_decompressobj\<close> inflates one
  stream from the front of its input and returns the unused data with it.
\<close>

record codec =
  sha1_hexdigest :: "bytes \<Rightarrow> string"
  zlib_compress :: "int \<Rightarrow> bytes \<Rightarrow> bytes"
  zlib_decompress :: "bytes \<Rightarrow> error + bytes"
  zlib_decompressobj :: "bytes \<Rightarrow> error + (bytes \<times> bytes)"

definition Z_BEST_SPEED :: int where
  "Z_BEST_SPEED = 1"

definition Z_DEFAULT_COMPRESSION :: int where
  "Z_DEFAULT_COMPRESSION = - 1"

definition hex_digest :: "string \<Rightarrow> bool" where
  "hex_digest s = (length s = 40 \<and> list_all (\<lambda>c. c \<in> set ''0123456789abcdef'') s)"

definition codec_ok :: "codec \<Rightarrow> bool" where
  \<comment> \<open>what the model assumes of the libraries: inflating undoes deflating at every
      level, and a digest is 40 lowercase hexadecimal digits\<close>
  "codec_ok cd =
     ((\<forall>level x. zlib_decompress cd (zlib_compress cd level x) = Inr x)
      \<and> (\<forall>x. hex_digest (sha1_hexdigest cd x)))"

section \<open>Object store\<close>

definition object_path :: "path \<Rightarrow> string \<Rightarrow> path" where
  \<comment> \<open>\<^verbatim>\<open>parent / ".git" / "objects" / sha[:2] / sha[2:]\<close>; an identifier is made of
      hexadecimal digits, one byte each, so cutting bytes cuts characters\<close>
  "object_path parent sha =
     path_join (path_join (parent @ [''.git'', ''objects'']) (take 2 sha)) (drop 2 sha)"

definition create_object ::
  "codec \<Rightarrow> string \<Rightarrow> bytes \<Rightarrow> path \<Rightarrow> filesystem \<Rightarrow> error + (string \<times> filesystem)" where
  "create_object cd category data parent fs =
     (let header = category @ '' '' @ str_nat (length data) @ [CHR 0x00];
          content = header @ data;
          sha = sha1_hexdigest cd content;
          p = object_path parent sha
      in case mkdir_parents_exist_ok (butlast p) fs of
           Inl e \<Rightarrow> Inl e
         | Inr fs1 \<Rightarrow>
             (case write_bytes p (zlib_compress cd Z_BEST_SPEED content) fs1 of
                Inl e \<Rightarrow> Inl e
              | Inr fs2 \<Rightarrow> Inr (sha, fs2)))"

definition read_object ::
  "codec \<Rightarrow> string \<Rightarrow> path \<Rightarrow> filesystem \<Rightarrow> error + (string \<times> bytes)" where
  "read_object cd sha parent fs =
     (case read_bytes (object_path parent sha) fs of
        Inl e \<Rightarrow> Inl e
      | Inr bs \<Rightarrow>
          (case zlib_decompress cd bs of
             Inl e \<Rightarrow> Inl e
           | Inr raw \<Rightarrow>
               (case split_once (CHR 0x00) raw of
                  Inl e \<Rightarrow> Inl e
                | Inr (head, content) \<Rightarrow>
                    (case split_all (CHR '' '') head of
                       [tip, _] \<Rightarrow>
                         (case decode tip of
                            Inl e \<Rightarrow> Inl e
                          | Inr tip' \<Rightarrow> Inr (tip', content))
                     | _ \<Rightarrow> Inl ValueError))))"

text \<open>The framed form of an object: type, a space, the decimal length, NUL, the payload.\<close>

definition framed :: "string \<Rightarrow> bytes \<Rightarrow> bytes" where
  "framed category data = category @ '' '' @ str_nat (length data) @ [CHR 0x00] @ data"

text \<open>
  A model codec to run the definitions on concrete inputs. The digest is the
  hexadecimal form of the first 20 bytes, padded with zeros; compression puts the two
  header bytes of a zlib stream in front of the data, the second one giving the level
  as zlib does (\<open>0x01\<close> for the fastest level, \<open>0x9C\<close> for the default); the
  streaming decompressor reads a length byte and that many bytes.
\<close>

definition toy_codec :: codec where
  "toy_codec =
     \<lparr> sha1_hexdigest = (\<lambda>bs. take 40 (hex (take 20 bs) @ ''0000000000000000000000000000000000000000'')),
       zlib_compress = (\<lambda>level bs. [CHR 0x78, if level = 1 then CHR 0x01 else CHR 0x9C] @ bs),
       zlib_decompress = (\<lambda>bs. if length bs < 2 then Inl ZlibError else Inr (drop 2 bs)),
       zlib_decompressobj =
         (\<lambda>bs. case bs of
                  [] \<Rightarrow> Inl ZlibError
                | n # r \<Rightarrow> if of_char n \<le> length r
                           then Inr (take (of_char n) r, drop (of_char n) r)
                           else Inl ZlibError) \<rparr>"

section \<open>Tree serializer\<close>

text \<open>
  \<^verbatim>\<open>write_tree\<close> with its \<^verbatim>\<open>for\<close> loop. The recursion is bounded by the interpreter's
  recursion limit, here the fuel \<open>n\<close>. The sort key of a child is computed once, before
  the loop; the child's full path is \<open>path @ [item]\<close>. The tree object is written by
  \<^verbatim>\<open>write_tree\<close> itself, with \<^verbatim>\<open>zlib.compress\<close> at its default level, under the
  working directory, where \<^verbatim>\<open>create_object\<close> puts the blobs.
\<close>

definition tree_sort_key :: "filesystem \<Rightarrow> path \<Rightarrow> string \<Rightarrow> string" where
  "tree_sort_key fs path x = (if isfile fs (path @ [x]) then x else x @ ''/'')"

fun write_tree ::
    "codec \<Rightarrow> path \<Rightarrow> nat \<Rightarrow> path \<Rightarrow> filesystem \<Rightarrow> error + (string \<times> filesystem)"
  and write_tree_items ::
    "codec \<Rightarrow> path \<Rightarrow> nat \<Rightarrow> path \<Rightarrow> string list \<Rightarrow> bytes \<Rightarrow> filesystem
      \<Rightarrow> error + (bytes \<times> filesystem)"
where
  "write_tree cd cwd 0 path fs = Inl RecursionError"
| "write_tree cd cwd (Suc n) path fs =
     (if isfile fs path then
        (case read_bytes path fs of
           Inl e \<Rightarrow> Inl e
         | Inr data \<Rightarrow> create_object cd ''blob'' data cwd fs)
      else
        (case listdir fs path of
           Inl e \<Rightarrow> Inl e
         | Inr names \<Rightarrow>
             (case write_tree_items cd cwd n path
                     (sort_key (tree_sort_key fs path) names) [] fs of
                Inl e \<Rightarrow> Inl e
              | Inr (tree_entries, fs1) \<Rightarrow>
                  (let tree_content =
                         ''tree '' @ str_nat (length tree_entries) @ [CHR 0x00] @ tree_entries;
                       sha = sha1_hexdigest cd tree_content;
                       tree_path = object_path cwd sha
                   in case mkdir_parents_exist_ok (butlast tree_path) fs1 of
                        Inl e \<Rightarrow> Inl e
                      | Inr fs2 \<Rightarrow>
                          (case write_bytes tree_path
                                  (zlib_compress cd Z_DEFAULT_COMPRESSION tree_content) fs2 of
                             Inl e \<Rightarrow> Inl e
                           | Inr fs3 \<Rightarrow> Inr (sha, fs3))))))"
| "write_tree_items cd cwd n path [] tree_entries fs = Inr (tree_entries, fs)"
| "write_tree_items cd cwd n path (item # items) tree_entries fs =
     (if item = ''.git'' then write_tree_items cd cwd n path items tree_entries fs
      else
        (case write_tree cd cwd n (path @ [item]) fs of
           Inl e \<Rightarrow> Inl e
         | Inr (sha, fs1) \<Rightarrow>
             (case int16 sha of
                Inl e \<Rightarrow> Inl e
              | Inr v \<Rightarrow>
                  (case to_bytes20 v of
                     Inl e \<Rightarrow> Inl e
                   | Inr oid \<Rightarrow>
                       write_tree_items cd cwd n path items
                         (tree_entries
                          @ (if isfile fs (path @ [item]) then ''100644'' else ''40000'')
                          @ '' '' @ item @ [CHR 0x00] @ oid)
                         fs1))))"

section \<open>Pack decoder: the object loop\<close>

text \<open>
  The \<^verbatim>\<open>ref_delta\<close> case of the loop over the pack's entries, after the entry header:
  20 bytes name the base object, the rest starts with the compressed delta. The
  reconstructed bytes are stored under the type read from the base object.
\<close>

definition ref_delta_entry ::
  "codec \<Rightarrow> path \<Rightarrow> bytes \<Rightarrow> filesystem \<Rightarrow> error + (bytes \<times> filesystem)" where
  "ref_delta_entry cd parent pack_file fs =
     (case zlib_decompressobj cd (drop 20 pack_file) of
        Inl e \<Rightarrow> Inl e
      | Inr (content, unused_data) \<Rightarrow>
          (case read_object cd (hex (take 20 pack_file)) parent fs of
             Inl e \<Rightarrow> Inl e
           | Inr (base_tip, base_content) \<Rightarrow>
               (case apply_delta base_content content of
                  Inl e \<Rightarrow> Inl e
                | Inr target_content \<Rightarrow>
                    (case create_object cd base_tip target_content parent fs of
                       Inl e \<Rightarrow> Inl e
                     | Inr (_, fs') \<Rightarrow> Inr (unused_data, fs')))))"

definition unpack_entry ::
  "codec \<Rightarrow> path \<Rightarrow> bytes \<Rightarrow> filesystem \<Rightarrow> error + (bytes \<times> filesystem)" where
  \<comment> \<open>one iteration of the loop: every other type, \<^verbatim>\<open>ofs_delta\<close> included, raises\<close>
  "unpack_entry cd parent pack_file fs =
     (case next_size_and_type pack_file of
        Inl e \<Rightarrow> Inl e
      | Inr (tip, _, pack_file1) \<Rightarrow>
          if tip = ''commit'' \<or> tip = ''tree'' \<or> tip = ''blob'' \<or> tip = ''tag'' then
            (case zlib_decompressobj cd pack_file1 of
               Inl e \<Rightarrow> Inl e
             | Inr (content, unused_data) \<Rightarrow>
                 (case create_object cd tip content parent fs of
                    Inl e \<Rightarrow> Inl e
                  | Inr (_, fs') \<Rightarrow> Inr (unused_data, fs')))
          else if tip = ''ref_delta'' then ref_delta_entry cd parent pack_file1 fs
          else Inl RuntimeError)"

primrec unpack_objects ::
  "codec \<Rightarrow> path \<Rightarrow> nat \<Rightarrow> bytes \<Rightarrow> filesystem \<Rightarrow> error + (bytes \<times> filesystem)" where
  "unpack_objects cd parent 0 pack_file fs = Inr (pack_file, fs)"
| "unpack_objects cd parent (Suc n) pack_file fs =
     (case unpack_entry cd parent pack_file fs of
        Inl e \<Rightarrow> Inl e
      | Inr (pack_file', fs') \<Rightarrow> unpack_objects cd parent n pack_file' fs')"

section \<open>Checkout renderer\<close>

text \<open>
  One turn of the parsing at the head of \<^verbatim>\<open>render_tree\<close>'s loop: the mode up to the first
  space, the name up to the first NUL, the hexadecimal form of the next 20 bytes (of
  fewer, when fewer are left), and the rest.
\<close>

definition next_entry :: "bytes \<Rightarrow> error + (bytes \<times> bytes \<times> string \<times> bytes)" where
  "next_entry tree_data =
     (case split_once (CHR '' '') tree_data of
        Inl e \<Rightarrow> Inl e
      | Inr (mode, r1) \<Rightarrow>
          (case split_once (CHR 0x00) r1 of
             Inl e \<Rightarrow> Inl e
           | Inr (name, r2) \<Rightarrow> Inr (mode, name, hex (take 20 r2), drop 20 r2)))"







section \<open>Example inputs\<close>

text \<open>
  A store under the directory \<^verbatim>\<open>repo\<close> that holds one object file, for running the
  definitions on concrete inputs.
\<close>

definition example_store :: "string \<Rightarrow> bytes \<Rightarrow> filesystem" where
  "example_store sha v =
     [([''repo''], Dir),
      ([''repo'', ''.git''], Dir),
      ([''repo'', ''.git'', ''objects''], Dir),
      ([''repo'', ''.git'', ''objects'', take 2 sha], Dir),
      ([''repo'', ''.git'', ''objects'', take 2 sha, drop 2 sha], File v)]"

text \<open>
  The store and the pack entry of the delta example. The store holds the blob
  \<^verbatim>\<open>The quick brown fox\<close>. The entry is: the header byte \<open>0x7D\<close> (type 7, size 13); the
  20 bytes naming the base (with the model digest, the first 20 bytes of its framed
  form); the delta in the model's stream format (the length byte 13); the delta itself:
  base size 19, result size 23, copy offset 0 size 9, insert \<^verbatim>\<open>lazy \<close>, copy offset 10
  size 9.
\<close>

definition fox_store :: filesystem where
  "fox_store =
     example_store ''626c6f622031390054686520717569636b206272''
       (CHR 0x78 # CHR 0x01 # ''blob 19'' @ CHR 0x00 # ''The quick brown fox'')"

definition fox_ref_delta :: bytes where
  "fox_ref_delta =
     [CHR 0x7D] @ (''blob 19'' @ CHR 0x00 # ''The quick br'') @ [CHR 0x0D] @
     [CHR 0x13, CHR 0x17] @ [CHR 0x90, CHR 0x09] @ (CHR 0x05 # ''lazy '') @
     [CHR 0x91, CHR 0x0A, CHR 0x09]"

text \<open>
  A tree entry for a child, as the format describes it: the mode of a regular file or
  of a directory, a space, the child's name, NUL, and the 20 bytes of an identifier.
\<close>

definition tree_entry_of :: "string \<Rightarrow> bytes \<Rightarrow> bool" where
  "tree_entry_of item e =
     (\<exists>mode oid. (mode = ''100644'' \<or> mode = ''40000'') \<and> length oid = 20
        \<and> e = mode @ '' '' @ item @ [CHR 0x00] @ oid)"

text \<open>
  Two working directories: in the first \<^verbatim>\<open>foo\<close> is a regular file and \<^verbatim>\<open>foo-bar\<close> a
  directory, in the second \<^verbatim>\<open>foo\<close> is a directory and \<^verbatim>\<open>foo-bar\<close> a regular file.
\<close>

definition foo_file_tree :: filesystem where
  "foo_file_tree =
     [([''repo''], Dir),
      ([''repo'', ''foo-bar''], Dir),
      ([''repo'', ''foo''], File ''A''),
      ([''repo'', ''.git''], Dir)]"

definition foo_dir_tree :: filesystem where
  "foo_dir_tree =
     [([''repo''], Dir),
      ([''repo'', ''foo''], Dir),
      ([''repo'', ''foo-bar''], File ''B''),
      ([''repo'', ''.git''], Dir)]"


section \<open>Properties of the size decoders\<close>

lemma size_loop_continues:
  assumes "continues p cs" and "bs = pre @ p # cs @ rest" and "index = length pre + 1"
  shows "size_loop bs sz index off = Inr (sz + continuation_bits off cs, index + length cs)"
  using assms
proof (induction cs arbitrary: pre p sz index off)
  case Nil
  then show ?case
    by (subst size_loop.simps) (simp add: byte_at_def)
next
  case (Cons c cs)
  have step: "size_loop bs (sz + push_bit off (of_char c AND 0x7F)) (index + 1) (off + 7) =
      Inr (sz + push_bit off (of_char c AND 0x7F) + continuation_bits (off + 7) cs,
           index + 1 + length cs)"
    by (rule Cons.IH [where pre = "pre @ [p]"]) (use Cons.prems in auto)
  from Cons.prems have "byte_at bs (index - 1) = Inr (of_char p)"
    by (simp add: byte_at_def)
  moreover from Cons.prems have "byte_at bs index = Inr (of_char c)"
    by (simp add: byte_at_def nth_append)
  ultimately show ?case
    using Cons.prems step by (subst size_loop.simps) simp
qed

text \<open>
  Claim C7. The pack decoder has two distinct size decoders. On every input that
  begins with a well-formed encoding \<open>enc\<close>, \<^verbatim>\<open>next_size_and_type\<close> returns the type
  named by bits 6..4 of the first byte and the size made of bits 3..0 of the first byte
  plus seven bits per continuation byte at shifts 4, 11, 18, ...; \<^verbatim>\<open>next_size\<close> returns
  the size made of bits 6..0 of the first byte plus seven bits per continuation byte at
  shifts 7, 14, ...; each returns exactly the unread tail \<open>rest\<close> with it.
\<close>

theorem two_size_decoders:
  assumes "wellformed_size enc"
  shows "next_size_and_type (enc @ rest) =
           Inr (type_name (header_type_code enc), header_size enc, rest)
       \<and> next_size (enc @ rest) = Inr (delta_size enc, rest)"
proof -
  from assms obtain b cs where enc: "enc = b # cs" and c: "continues b cs"
    by (cases enc) auto
  have l4: "size_loop (b # cs @ rest) s (Suc 0) off =
      Inr (s + continuation_bits off cs, Suc (length cs))" for s off
    using size_loop_continues [OF c, where pre = "[]" and rest = rest and index = 1
        and sz = s and off = off]
    by simp
  have ty: "drop_bit 4 ((of_char b :: nat) AND 112) = drop_bit 4 (of_char b) AND 7"
    by (simp add: bit_eq_iff bit_simps)
  show ?thesis
    by (simp add: next_size_and_type_def next_size_def byte_at_def l4 enc header_type_code_def
      header_size_def delta_size_def ty)
qed

theorem two_size_decoders_witness:
  "wellformed_size [CHR 0xB5, CHR 0x82, CHR 0x01]
   \<and> next_size_and_type [CHR 0xB5, CHR 0x82, CHR 0x01, CHR ''x''] = Inr (''blob'', 2085, ''x'')
   \<and> next_size [CHR 0xB5, CHR 0x82, CHR 0x01, CHR ''x''] = Inr (16693, ''x'')"
  using two_size_decoders [of "[CHR 0xB5, CHR 0x82, CHR 0x01]" "''x''"]
  by (simp add: header_size_def delta_size_def header_type_code_def type_name_def)

section \<open>Properties of delta application\<close>

lemma apply_instructions_base_irrelevant:
  "isl (apply_instructions base content target) = isl (apply_instructions base' content target')"
proof (induction base content target arbitrary: target' rule: apply_instructions.induct)
  case (1 base_content content target_content)
  show ?case
  proof (cases "content = []")
    case True
    then show ?thesis by (simp add: apply_instructions.simps)
  next
    case False
    show ?thesis
    proof (cases "(of_char (hd content) :: nat) AND 0x80 \<noteq> 0")
      case True
      show ?thesis
      proof (cases "copy_args content")
        case (Inl e)
        with False True show ?thesis
          by (simp add: apply_instructions.simps [of _ content])
      next
        case (Inr r)
        obtain offset sz data_ptr where r: "r = (offset, sz, data_ptr)"
          by (cases r) auto
        from "1.IH"(1) [OF False True Inr [unfolded r] refl refl,
            of "target' @ slice offset (offset + sz) base'"]
        show ?thesis
          using False True Inr r by (simp add: apply_instructions.simps [of _ content])
      qed
    next
      case nc: False
      from "1.IH"(2) [OF False nc, of "target' @ slice 1 (of_char (hd content) + 1) content"]
      show ?thesis
        using False nc by (simp add: apply_instructions.simps [of _ content])
    qed
  qed
qed

text \<open>
  Claim C5 says that a copy instruction with no size bytes emits \<open>0x10000\<close> bytes of
  the base. The code keeps the size 0 and emits \<^verbatim>\<open>base_content[offset : offset + 0]\<close>,
  which is empty: the delta below (base size 19, result size 19, then the single
  instruction byte \<open>0x80\<close>) yields the empty target, not the 19 bytes of the base.
\<close>

theorem copy_without_size_bytes_emits_nothing:
  "apply_delta ''The quick brown fox'' [CHR 0x13, CHR 0x13, CHR 0x80] = Inr []"
  by (simp add: apply_delta_def next_size_def byte_at_def size_loop.simps
      apply_instructions.simps copy_args_def slice_def)

text \<open>
  Claim C6, as amended. A copy instruction never fails because of its range. It emits
  \<^verbatim>\<open>base_content[offset : offset + size]\<close> with Python's clipping: the
  \<open>min size (length base_content - offset)\<close> bytes of the base from \<open>offset\<close> on, none
  when \<open>offset\<close> is at or past the end. Whether the instruction stream fails at all
  does not depend on the base: it fails exactly when it fails against the empty base.
\<close>

theorem copy_is_clipped_to_base:
  assumes "content \<noteq> []" and "(of_char (hd content) :: nat) AND 0x80 \<noteq> 0"
    and "copy_args content = Inr (offset, sz, data_ptr)"
  shows "apply_instructions base_content content target_content =
           apply_instructions base_content (drop data_ptr content)
             (target_content @
              take (min sz (length base_content - offset)) (drop offset base_content))
       \<and> isl (apply_instructions base_content content target_content) =
           isl (apply_instructions [] content target_content)"
proof -
  have "slice offset (offset + sz) base_content =
      take (min sz (length base_content - offset)) (drop offset base_content)"
    by (simp add: slice_def drop_take min_def)
  with assms show ?thesis
    using apply_instructions_base_irrelevant
      [of base_content content target_content "[]" target_content]
    by (simp add: apply_instructions.simps [of _ content])
qed

theorem copy_is_clipped_to_base_witness:
  "[CHR 0x91, CHR 0x0A, CHR 0x14] \<noteq> []
   \<and> (of_char (hd [CHR 0x91, CHR 0x0A, CHR 0x14]) :: nat) AND 0x80 \<noteq> 0
   \<and> copy_args [CHR 0x91, CHR 0x0A, CHR 0x14] = Inr (10, 20, 3)
   \<and> apply_instructions ''The quick brown fox'' [CHR 0x91, CHR 0x0A, CHR 0x14] []
       = Inr ''brown fox''"
proof -
  have a: "[CHR 0x91, CHR 0x0A, CHR 0x14] \<noteq> []"
    by simp
  have b: "(of_char (hd [CHR 0x91, CHR 0x0A, CHR 0x14]) :: nat) AND 0x80 \<noteq> 0"
    by simp
  have c: "copy_args [CHR 0x91, CHR 0x0A, CHR 0x14] = Inr (10, 20, 3)"
    by (simp add: copy_args_def byte_at_def)
  from copy_is_clipped_to_base [OF a b c, of "''The quick brown fox''" "[]"]
  have "apply_instructions ''The quick brown fox'' [CHR 0x91, CHR 0x0A, CHR 0x14] []
      = apply_instructions ''The quick brown fox'' [] ''brown fox''"
    by simp
  then show ?thesis
    using a b c by (simp add: apply_instructions.simps [of _ "[]"])
qed

text \<open>
  The claim as first stated fails: the copy below addresses bytes 10 to 29 of a base of
  19 bytes, and delta application returns the nine bytes that exist instead of failing.
\<close>

theorem copy_beyond_base_counterexample:
  "length ''The quick brown fox'' < 10 + 20
   \<and> apply_delta ''The quick brown fox'' [CHR 0x13, CHR 0x09, CHR 0x91, CHR 0x0A, CHR 0x14]
       = Inr ''brown fox''"
  by (simp add: apply_delta_def next_size_def byte_at_def size_loop.simps
      apply_instructions.simps copy_args_def slice_def)

section \<open>Properties of the file system operations\<close>

lemma below_longer:
  "q \<in> set (below pre cs) \<Longrightarrow> length pre < length q \<and> length q \<le> length pre + length cs"
  by (induction cs arbitrary: pre) fastforce+

lemma below_snoc: "below pre (cs @ [c]) = below pre cs @ [pre @ cs @ [c]]"
  by (induction cs arbitrary: pre) auto

lemma walk_Inr_iff:
  "walk fs pre cs = Inr n \<longleftrightarrow>
     (cs = [] \<and> n = Dir) \<or>
     (cs \<noteq> [] \<and> (\<forall>q \<in> set (below pre (butlast cs)). map_of fs q = Some Dir)
        \<and> map_of fs (pre @ cs) = Some n)"
proof (induction fs pre cs rule: walk.induct)
  case (1 fs pre)
  then show ?case by auto
next
  case (2 fs pre c)
  then show ?case by (auto split: option.splits)
next
  case (3 fs pre c d ds)
  then show ?case
    by (auto split: option.splits node.splits)
qed

lemma walk_dirs_above:
  assumes "cs \<noteq> []" and "\<forall>q \<in> set (below pre (butlast cs)). map_of fs q = Some Dir"
  shows "walk fs pre cs =
    (case map_of fs (pre @ cs) of None \<Rightarrow> Inl FileNotFoundError | Some n \<Rightarrow> Inr n)"
  using assms
proof (induction fs pre cs rule: walk.induct)
  case (1 fs pre)
  then show ?case by simp
next
  case (2 fs pre c)
  then show ?case by simp
next
  case (3 fs pre c d ds)
  from "3.prems" have here: "map_of fs (pre @ [c]) = Some Dir"
    by simp
  from "3.prems" have rest: "\<forall>q \<in> set (below (pre @ [c]) (butlast (d # ds))). map_of fs q = Some Dir"
    by simp
  have "walk fs (pre @ [c]) (d # ds) =
    (case map_of fs ((pre @ [c]) @ d # ds) of None \<Rightarrow> Inl FileNotFoundError | Some n \<Rightarrow> Inr n)"
    using "3.IH" [OF here refl _ rest] by simp
  with here show ?case by simp
qed


lemma mkdir_walk_result:
  "mkdir_walk pre cs fs = Inr fs' \<Longrightarrow>
     map_of fs' q = (if q \<in> set (below pre cs) then Some Dir else map_of fs q)"
proof (induction cs arbitrary: pre fs)
  case Nil
  then show ?case by simp
next
  case (Cons c cs)
  show ?case
  proof (cases "map_of fs (pre @ [c])")
    case None
    with Cons.prems have "mkdir_walk (pre @ [c]) cs (AList.update (pre @ [c]) Dir fs) = Inr fs'"
      by simp
    from Cons.IH [OF this] show ?thesis
      by (simp add: update_conv')
  next
    case (Some m)
    with Cons.prems obtain md: "m = Dir" and "mkdir_walk (pre @ [c]) cs fs = Inr fs'"
      by (cases m) auto
    from Cons.IH [OF this(2)] Some md show ?thesis
      by simp
  qed
qed

lemma mkdir_walk_fails_iff:
  "isl (mkdir_walk pre cs fs) \<longleftrightarrow> (\<exists>q \<in> set (below pre cs). \<not> no_file_at fs q)"
proof (induction cs arbitrary: pre fs)
  case Nil
  then show ?case by simp
next
  case (Cons c cs)
  show ?case
  proof (cases "map_of fs (pre @ [c])")
    case None
    have same: "no_file_at (AList.update (pre @ [c]) Dir fs) q = no_file_at fs q"
      if "q \<in> set (below (pre @ [c]) cs)" for q
    proof -
      from below_longer [OF that] have "q \<noteq> pre @ [c]"
        by auto
      then show ?thesis
        by (simp add: no_file_at_def update_conv')
    qed
    have here: "no_file_at fs (pre @ [c])"
      using None by (simp add: no_file_at_def)
    have "isl (mkdir_walk pre (c # cs) fs) =
        isl (mkdir_walk (pre @ [c]) cs (AList.update (pre @ [c]) Dir fs))"
      using None by simp
    also have "\<dots> = (\<exists>q \<in> set (below (pre @ [c]) cs).
        \<not> no_file_at (AList.update (pre @ [c]) Dir fs) q)"
      by (rule Cons.IH)
    also have "\<dots> = (\<exists>q \<in> set (below (pre @ [c]) cs). \<not> no_file_at fs q)"
      using same by blast
    also have "\<dots> = (\<exists>q \<in> set (below pre (c # cs)). \<not> no_file_at fs q)"
      using here by simp
    finally show ?thesis .
  next
    case (Some m)
    show ?thesis
    proof (cases m)
      case (File x)
      with Some show ?thesis by (simp add: no_file_at_def)
    next
      case Dir
      with Some have here: "no_file_at fs (pre @ [c])"
        by (simp add: no_file_at_def)
      have "isl (mkdir_walk pre (c # cs) fs) = isl (mkdir_walk (pre @ [c]) cs fs)"
        using Some Dir by simp
      also have "\<dots> = (\<exists>q \<in> set (below (pre @ [c]) cs). \<not> no_file_at fs q)"
        by (rule Cons.IH)
      also have "\<dots> = (\<exists>q \<in> set (below pre (c # cs)). \<not> no_file_at fs q)"
        using here by simp
      finally show ?thesis .
    qed
  qed
qed

lemma mkdir_walk_noop:
  "\<forall>q \<in> set (below pre cs). map_of fs q = Some Dir \<Longrightarrow> mkdir_walk pre cs fs = Inr fs"
  by (induction cs arbitrary: pre) simp_all


lemma below_butlast_notin: "p \<notin> set (below [] (butlast p))"
proof
  assume "p \<in> set (below [] (butlast p))"
  from below_longer [OF this] show False
    by (cases p rule: rev_cases) auto
qed

lemma stat_Inr_iff:
  "stat fs p = Inr n \<longleftrightarrow>
     list_all plain_name p \<and>
     ((p = [] \<and> n = Dir) \<or>
      (p \<noteq> [] \<and> (\<forall>q \<in> set (below [] (butlast p)). map_of fs q = Some Dir)
         \<and> map_of fs p = Some n))"
  using walk_Inr_iff [of fs "[]" p n] by (auto simp: stat_def)

lemma stat_dirs_above:
  assumes "list_all plain_name p" and "p \<noteq> []"
    and "\<forall>q \<in> set (below [] (butlast p)). map_of fs q = Some Dir"
  shows "stat fs p = (case map_of fs p of None \<Rightarrow> Inl FileNotFoundError | Some n \<Rightarrow> Inr n)"
  using walk_dirs_above [of p "[]" fs] assms by (simp add: stat_def)

lemma stat_butlast_Dir:
  assumes "stat fs (butlast p) = Inr Dir"
  shows "\<forall>q \<in> set (below [] (butlast p)). map_of fs q = Some Dir"
proof (cases "butlast p = []")
  case True
  then show ?thesis by simp
next
  case False
  then obtain ys y where b: "butlast p = ys @ [y]"
    by (cases "butlast p" rule: rev_cases) auto
  from assms have "(\<forall>q \<in> set (below [] ys). map_of fs q = Some Dir) \<and> map_of fs (ys @ [y]) = Some Dir"
    by (simp add: stat_Inr_iff b)
  then show ?thesis
    by (simp add: b below_snoc)
qed

lemma write_bytes_Inr:
  assumes "write_bytes p d fs = Inr fs'"
  shows "fs' = AList.update p (File d) fs \<and> list_all plain_name p \<and> p \<noteq> []
    \<and> (\<forall>q \<in> set (below [] (butlast p)). map_of fs q = Some Dir)
    \<and> map_of fs p \<noteq> Some Dir"
proof (cases "stat fs p")
  case (Inl e)
  with assms have e: "e = FileNotFoundError" and par: "stat fs (butlast p) = Inr Dir"
    and fs': "fs' = AList.update p (File d) fs"
    by (auto simp: write_bytes_def split: if_splits)
  from Inl e have plain: "list_all plain_name p"
    by (auto simp: stat_def split: if_splits)
  from Inl have ne: "p \<noteq> []"
    by (auto simp: stat_def split: if_splits)
  note above = stat_butlast_Dir [OF par]
  from stat_dirs_above [OF plain ne above] Inl have "map_of fs p = None"
    by (auto split: option.splits)
  with fs' plain ne above show ?thesis by simp
next
  case (Inr n)
  with assms obtain x where n: "n = File x" and fs': "fs' = AList.update p (File d) fs"
    by (cases n) (auto simp: write_bytes_def)
  from Inr n show ?thesis
    by (auto simp: stat_Inr_iff fs')
qed

lemma write_bytes_succeeds:
  assumes "list_all plain_name p" and "p \<noteq> []"
    and "\<forall>q \<in> set (below [] (butlast p)). map_of fs q = Some Dir"
    and "map_of fs p \<noteq> Some Dir"
  shows "write_bytes p d fs = Inr (AList.update p (File d) fs)"
proof (cases "map_of fs p")
  case None
  with stat_dirs_above [OF assms(1-3)] have s: "stat fs p = Inl FileNotFoundError"
    by simp
  from assms(1) have pl: "list_all plain_name (butlast p)"
    by (cases p rule: rev_cases) auto
  have "stat fs (butlast p) = Inr Dir"
  proof (cases "butlast p = []")
    case True
    then show ?thesis by (simp add: stat_def)
  next
    case False
    then obtain ys y where b: "butlast p = ys @ [y]"
      by (cases "butlast p" rule: rev_cases) auto
    with assms(3) pl show ?thesis
      by (simp add: stat_Inr_iff below_snoc)
  qed
  with s show ?thesis
    by (simp add: write_bytes_def)
next
  case (Some n)
  with assms(4) obtain x where "n = File x"
    by (cases n) auto
  with Some stat_dirs_above [OF assms(1-3)] show ?thesis
    by (simp add: write_bytes_def)
qed

lemma read_after_write:
  assumes "write_bytes p d fs = Inr fs'"
  shows "read_bytes p fs' = Inr d"
proof -
  from write_bytes_Inr [OF assms] have fs': "fs' = AList.update p (File d) fs"
    and plain: "list_all plain_name p" and ne: "p \<noteq> []"
    and above: "\<forall>q \<in> set (below [] (butlast p)). map_of fs q = Some Dir"
    by auto
  have "\<forall>q \<in> set (below [] (butlast p)). map_of fs' q = Some Dir"
    using above below_butlast_notin [of p] by (auto simp: fs' update_conv')
  from stat_dirs_above [OF plain ne this] show ?thesis
    by (simp add: read_bytes_def fs' update_conv')
qed


section \<open>Properties of the object store\<close>

lemma digit_char_decimal: "d < 10 \<Longrightarrow> digit_char d \<in> set ''0123456789''"
proof -
  assume "d < 10"
  then have "d \<in> {0, 1, 2, 3, 4, 5, 6, 7, 8, 9}"
    by auto
  then show ?thesis
    by (auto simp: digit_char_def)
qed

lemma str_nat_decimal: "set (str_nat n) \<subseteq> set ''0123456789''"
proof (induction n rule: str_nat.induct)
  case (1 n)
  show ?case
  proof (cases "n < 10")
    case True
    with digit_char_decimal [of n] show ?thesis
      by (subst str_nat.simps) simp
  next
    case False
    have "n mod 10 < 10" by simp
    from digit_char_decimal [OF this] "1.IH" [OF False] False show ?thesis
      by (subst str_nat.simps) simp
  qed
qed

lemma str_nat_no_sep: "CHR '' '' \<notin> set (str_nat n)" "CHR 0x00 \<notin> set (str_nat n)"
  using str_nat_decimal [of n] by auto

lemma split_once_append:
  "sep \<notin> set a \<Longrightarrow> split_once sep (a @ sep # b) = Inr (a, b)"
  by (induction a) (auto simp: split_once_def)

lemma split_all_no_sep: "sep \<notin> set a \<Longrightarrow> split_all sep a = [a]"
  by (induction a) auto

lemma split_all_append:
  "sep \<notin> set a \<Longrightarrow> split_all sep (a @ sep # b) = a # split_all sep b"
  by (induction a) auto

lemma object_path_nonempty: "object_path parent sha \<noteq> []"
  by (simp add: object_path_def path_join_def)


lemma list_all_butlast: "list_all P p \<Longrightarrow> list_all P (butlast p)"
  by (cases p rule: rev_cases) auto

lemma create_object_unfold:
  "create_object cd category data parent fs =
     (case mkdir_parents_exist_ok
             (butlast (object_path parent (sha1_hexdigest cd (framed category data)))) fs of
        Inl e \<Rightarrow> Inl e
      | Inr fs1 \<Rightarrow>
          (case write_bytes (object_path parent (sha1_hexdigest cd (framed category data)))
                  (zlib_compress cd Z_BEST_SPEED (framed category data)) fs1 of
             Inl e \<Rightarrow> Inl e
           | Inr fs2 \<Rightarrow> Inr (sha1_hexdigest cd (framed category data), fs2)))"
proof -
  have eq: "(category @ '' '' @ str_nat (length data) @ [CHR 0x00]) @ data =
      framed category data"
    by (simp add: framed_def)
  show ?thesis
    unfolding create_object_def Let_def eq ..
qed

lemma create_object_Inr:
  assumes "create_object cd category data parent fs = Inr (sha, fs')"
  shows "sha = sha1_hexdigest cd (framed category data)"
    and "can_store fs (object_path parent sha)"
    and "list_all plain_name (object_path parent sha)"
    and "\<forall>q \<in> set (below [] (butlast (object_path parent sha))). map_of fs' q = Some Dir"
    and "map_of fs' (object_path parent sha) =
           Some (File (zlib_compress cd Z_BEST_SPEED (framed category data)))"
    and "\<forall>q. q \<noteq> object_path parent sha \<and> q \<notin> set (below [] (butlast (object_path parent sha)))
           \<longrightarrow> map_of fs' q = map_of fs q"
proof -
  define p where "p = object_path parent (sha1_hexdigest cd (framed category data))"
  define v where "v = zlib_compress cd Z_BEST_SPEED (framed category data)"
  from assms obtain fs1 where mk: "mkdir_parents_exist_ok (butlast p) fs = Inr fs1"
    and wr: "write_bytes p v fs1 = Inr fs'"
    and sha: "sha = sha1_hexdigest cd (framed category data)"
    by (auto simp: create_object_unfold p_def v_def split: sum.splits)
  from mk have mw: "mkdir_walk [] (butlast p) fs = Inr fs1"
    by (auto simp: mkdir_parents_exist_ok_def split: if_splits)
  note res = mkdir_walk_result [OF mw]
  from write_bytes_Inr [OF wr] have fs': "fs' = AList.update p (File v) fs1"
    and plain: "list_all plain_name p"
    and notdir: "map_of fs1 p \<noteq> Some Dir"
    by auto
  have pn: "p \<notin> set (below [] (butlast p))"
    by (rule below_butlast_notin)
  from mkdir_walk_fails_iff [of "[]" "butlast p" fs] mw
  have nf: "\<forall>q \<in> set (below [] (butlast p)). no_file_at fs q"
    by auto
  show "sha = sha1_hexdigest cd (framed category data)"
    by (rule sha)
  show "can_store fs (object_path parent sha)"
    using plain nf notdir res [of p] pn
    by (simp add: can_store_def sha p_def [symmetric] list_all_iff)
  show "list_all plain_name (object_path parent sha)"
    using plain by (simp add: sha p_def)
  show "\<forall>q \<in> set (below [] (butlast (object_path parent sha))). map_of fs' q = Some Dir"
    using res pn by (auto simp: sha p_def [symmetric] fs' update_conv')
  show "map_of fs' (object_path parent sha) =
      Some (File (zlib_compress cd Z_BEST_SPEED (framed category data)))"
    by (simp add: sha p_def [symmetric] fs' update_conv' v_def)
  show "\<forall>q. q \<noteq> object_path parent sha
        \<and> q \<notin> set (below [] (butlast (object_path parent sha)))
      \<longrightarrow> map_of fs' q = map_of fs q"
    using res by (simp add: sha p_def [symmetric] fs' update_conv')
qed

lemma create_object_succeeds:
  assumes "can_store fs (object_path parent (sha1_hexdigest cd (framed category data)))"
  shows "\<exists>fs'. create_object cd category data parent fs =
           Inr (sha1_hexdigest cd (framed category data), fs')"
proof -
  define p where "p = object_path parent (sha1_hexdigest cd (framed category data))"
  from assms have plain: "list_all plain_name p"
    and nf: "\<forall>q \<in> set (below [] (butlast p)). no_file_at fs q"
    and nd: "map_of fs p \<noteq> Some Dir"
    by (auto simp: can_store_def p_def list_all_iff)
  have "\<not> isl (mkdir_walk [] (butlast p) fs)"
    using mkdir_walk_fails_iff [of "[]" "butlast p" fs] nf by blast
  then obtain fs1 where mw: "mkdir_walk [] (butlast p) fs = Inr fs1"
    by (cases "mkdir_walk [] (butlast p) fs") auto
  then have mk: "mkdir_parents_exist_ok (butlast p) fs = Inr fs1"
    using plain by (simp add: mkdir_parents_exist_ok_def list_all_butlast)
  note res = mkdir_walk_result [OF mw]
  have ne: "p \<noteq> []"
    by (simp add: p_def object_path_nonempty)
  have above: "\<forall>q \<in> set (below [] (butlast p)). map_of fs1 q = Some Dir"
    using res by simp
  have "map_of fs1 p \<noteq> Some Dir"
    using res [of p] nd below_butlast_notin [of p] by simp
  from write_bytes_succeeds [OF plain ne above this] mk show ?thesis
    by (simp add: create_object_unfold p_def [symmetric])
qed

lemma read_object_framed:
  assumes "read_bytes (object_path parent sha) fs = Inr bs"
    and "zlib_decompress cd bs = Inr (tip @ CHR '' '' # len @ CHR 0x00 # payload)"
    and "CHR 0x00 \<notin> set tip" and "CHR '' '' \<notin> set tip"
    and "CHR 0x00 \<notin> set len" and "CHR '' '' \<notin> set len"
    and "utf8_wellformed (map of_char tip)"
  shows "read_object cd sha parent fs = Inr (tip, payload)"
proof -
  have "split_once (CHR 0x00) (tip @ CHR '' '' # len @ CHR 0x00 # payload) =
      Inr (tip @ CHR '' '' # len, payload)"
    using split_once_append [of "CHR 0x00" "tip @ CHR '' '' # len" payload] assms(3,5)
    by simp
  moreover have "split_all (CHR '' '') (tip @ CHR '' '' # len) = [tip, len]"
    using assms(4,6) by (simp add: split_all_append split_all_no_sep)
  ultimately show ?thesis
    using assms(1,2,7) by (simp add: read_object_def decode_def)
qed

lemmas run_defs = create_object_def Let_def str_nat.simps toy_codec_def hex_def digit_char_def
      object_path_def path_join_def mkdir_parents_exist_ok_def plain_name_def write_bytes_def
      stat_def Z_BEST_SPEED_def read_object_def read_bytes_def split_once_def decode_def

lemma digit_char_hex: "d < 16 \<Longrightarrow> digit_char d \<in> set ''0123456789abcdef''"
  using nth_mem [of d "''0123456789abcdef''"] by (simp add: digit_char_def)

lemma hex_chars: "set (hex bs) \<subseteq> set ''0123456789abcdef''"
proof (induction bs)
  case Nil
  then show ?case by (simp add: hex_def)
next
  case (Cons c bs)
  have a: "(of_char c :: nat) div 16 < 16"
    by (rule less_mult_imp_div_less) simp
  have b: "(of_char c :: nat) mod 16 < 16"
    by simp
  from digit_char_hex [OF a] digit_char_hex [OF b] Cons show ?case
    by (simp add: hex_def)
qed

lemma toy_codec_ok: "codec_ok toy_codec"
proof -
  have "hex_digest (take 40 (hex (take 20 x) @ ''0000000000000000000000000000000000000000''))" for x
  proof -
    have "set (take 40 (hex (take 20 x) @ ''0000000000000000000000000000000000000000''))
        \<subseteq> set (hex (take 20 x) @ ''0000000000000000000000000000000000000000'')"
      by (rule set_take_subset)
    also have "\<dots> \<subseteq> set ''0123456789abcdef''"
      using hex_chars [of "take 20 x"] by auto
    finally have chars: "\<forall>c \<in> set (take 40 (hex (take 20 x) @ ''0000000000000000000000000000000000000000'')).
        c \<in> set ''0123456789abcdef''"
      by blast
    have len: "length (take 40 (hex (take 20 x) @ ''0000000000000000000000000000000000000000'')) = 40"
      by simp
    show ?thesis
      unfolding hex_digest_def list_all_iff using chars len by blast
  qed
  then show ?thesis
    by (simp add: codec_ok_def toy_codec_def)
qed

lemma stored_object_readable:
  assumes "list_all plain_name p" and "p \<noteq> []"
    and "\<forall>q \<in> set (below [] (butlast p)). map_of fs q = Some Dir"
    and "map_of fs p = Some (File v)"
  shows "read_bytes p fs = Inr v"
  using stat_dirs_above [OF assms(1-3)] assms(4) by (simp add: read_bytes_def)

lemma valid_type_facts:
  assumes "category \<in> {''blob'', ''tree'', ''commit'', ''tag''}"
  shows "CHR 0x00 \<notin> set category" and "CHR '' '' \<notin> set category"
    and "utf8_wellformed (map of_char category)"
  using assms by auto

text \<open>
  Claim C1. For each of the four object types and every payload, \<^verbatim>\<open>create_object\<close>
  followed by \<^verbatim>\<open>read_object\<close> of the returned identifier yields the type and the
  payload again. \<^verbatim>\<open>create_object\<close> fails only on the file system: exactly when a
  regular file stands in the place of a directory of the object's path, or a directory
  at the path itself (\<open>can_store\<close>); otherwise it returns the SHA-1 of the framed object.
\<close>

theorem put_then_get:
  assumes "codec_ok cd" and "category \<in> {''blob'', ''tree'', ''commit'', ''tag''}"
  shows "case create_object cd category data parent fs of
           Inl e \<Rightarrow>
             \<not> can_store fs (object_path parent (sha1_hexdigest cd (framed category data)))
         | Inr (sha, fs') \<Rightarrow>
             sha = sha1_hexdigest cd (framed category data)
             \<and> can_store fs (object_path parent sha)
             \<and> read_object cd sha parent fs' = Inr (category, data)"
proof (cases "create_object cd category data parent fs")
  case (Inl e)
  with create_object_succeeds [of fs parent cd category data] show ?thesis
    by auto
next
  case (Inr r)
  obtain sha fs' where r: "r = (sha, fs')"
    by (cases r) auto
  note c = create_object_Inr [OF Inr [unfolded r]]
  have rd: "read_bytes (object_path parent sha) fs' =
      Inr (zlib_compress cd Z_BEST_SPEED (framed category data))"
    by (rule stored_object_readable [OF c(3) object_path_nonempty c(4) c(5)])
  from assms(1) have z: "zlib_decompress cd (zlib_compress cd Z_BEST_SPEED (framed category data)) =
      Inr (category @ CHR '' '' # str_nat (length data) @ CHR 0x00 # data)"
    by (simp add: codec_ok_def framed_def)
  note t = valid_type_facts [OF assms(2)]
  have "read_object cd sha parent fs' = Inr (category, data)"
    by (rule read_object_framed [OF rd z t(1) t(2) str_nat_no_sep(2) str_nat_no_sep(1) t(3)])
  with c(1,2) Inr r show ?thesis
    by simp
qed

theorem put_then_get_witness:
  "codec_ok toy_codec \<and> ''blob'' \<in> {''blob'', ''tree'', ''commit'', ''tag''}
   \<and> create_object toy_codec ''blob'' ''hello'' [''repo''] [] =
       Inr (''626c6f6220350068656c6c6f0000000000000000'',
         [([''repo''], Dir), ([''repo'', ''.git''], Dir), ([''repo'', ''.git'', ''objects''], Dir),
          ([''repo'', ''.git'', ''objects'', ''62''], Dir),
          ([''repo'', ''.git'', ''objects'', ''62'', ''6c6f6220350068656c6c6f0000000000000000''],
           File (CHR 0x78 # CHR 0x01 # ''blob 5'' @ CHR 0x00 # ''hello''))])
   \<and> read_object toy_codec ''626c6f6220350068656c6c6f0000000000000000'' [''repo'']
         [([''repo''], Dir), ([''repo'', ''.git''], Dir), ([''repo'', ''.git'', ''objects''], Dir),
          ([''repo'', ''.git'', ''objects'', ''62''], Dir),
          ([''repo'', ''.git'', ''objects'', ''62'', ''6c6f6220350068656c6c6f0000000000000000''],
           File (CHR 0x78 # CHR 0x01 # ''blob 5'' @ CHR 0x00 # ''hello''))]
       = Inr (''blob'', ''hello'')"
  (is "_ \<and> _ \<and> ?run \<and> ?read")
proof -
  have ty: "''blob'' \<in> {''blob'', ''tree'', ''commit'', ''tag''}"
    by simp
  have run: ?run
    by (simp add: run_defs)
  from put_then_get [OF toy_codec_ok ty, where data = "''hello''" and parent = "[''repo'']"
      and fs = "[]", unfolded run sum.case prod.case]
  have ?read
    by blast
  with toy_codec_ok ty run show ?thesis
    by blast
qed

text \<open>
  Claim C8, as amended. \<^verbatim>\<open>create_object\<close> has no test for an existing file: every call
  writes the fastest-level compression of the framed object at the object's path and
  returns the same identifier. A call that follows a successful call with the same type
  and payload therefore finds exactly these bytes there and leaves the whole file
  system as it is: repeating \<^verbatim>\<open>create_object\<close> is idempotent.
\<close>

theorem put_rewrites_and_is_idempotent:
  assumes "create_object cd category data parent fs = Inr (sha, fs')"
  shows "read_bytes (object_path parent sha) fs' =
           Inr (zlib_compress cd Z_BEST_SPEED (framed category data))
       \<and> create_object cd category data parent fs' = Inr (sha, fs')"
proof -
  note c = create_object_Inr [OF assms]
  define p where "p = object_path parent sha"
  define v where "v = zlib_compress cd Z_BEST_SPEED (framed category data)"
  have plain: "list_all plain_name p" and ne: "p \<noteq> []"
    and above: "\<forall>q \<in> set (below [] (butlast p)). map_of fs' q = Some Dir"
    and here: "map_of fs' p = Some (File v)"
    using c(3,4,5) by (simp_all add: p_def v_def object_path_nonempty)
  have rd: "read_bytes p fs' = Inr v"
    by (rule stored_object_readable [OF plain ne above here])
  have mk: "mkdir_parents_exist_ok (butlast p) fs' = Inr fs'"
    using mkdir_walk_noop [OF above] plain
    by (simp add: mkdir_parents_exist_ok_def list_all_butlast)
  have "write_bytes p v fs' = Inr (AList.update p (File v) fs')"
    by (rule write_bytes_succeeds [OF plain ne above]) (simp add: here)
  then have wr: "write_bytes p v fs' = Inr fs'"
    by (simp add: update_triv [OF here])
  have "create_object cd category data parent fs' = Inr (sha, fs')"
    using mk wr by (simp add: create_object_unfold c(1) [symmetric] p_def [symmetric] v_def [symmetric])
  with rd show ?thesis
    by (simp add: p_def v_def)
qed

lemmas store_defs = run_defs example_store_def

theorem put_rewrites_and_is_idempotent_witness:
  "create_object toy_codec ''blob'' ''hello'' [''repo''] [] =
       Inr (''626c6f6220350068656c6c6f0000000000000000'',
            example_store ''626c6f6220350068656c6c6f0000000000000000''
              (CHR 0x78 # CHR 0x01 # ''blob 5'' @ CHR 0x00 # ''hello''))
   \<and> create_object toy_codec ''blob'' ''hello'' [''repo'']
         (example_store ''626c6f6220350068656c6c6f0000000000000000''
              (CHR 0x78 # CHR 0x01 # ''blob 5'' @ CHR 0x00 # ''hello'')) =
       Inr (''626c6f6220350068656c6c6f0000000000000000'',
            example_store ''626c6f6220350068656c6c6f0000000000000000''
              (CHR 0x78 # CHR 0x01 # ''blob 5'' @ CHR 0x00 # ''hello''))"
  (is "?first \<and> ?second")
proof -
  have first: ?first
    by (simp add: store_defs)
  from put_rewrites_and_is_idempotent [OF first] have ?second
    by blast
  with first show ?thesis
    by blast
qed

text \<open>
  The claim as first stated fails when the existing file holds other bytes. Below the
  file at the path of the empty tree holds the default-level compression of the framed
  tree, as \<^verbatim>\<open>write_tree\<close> writes it; \<^verbatim>\<open>create_object\<close> replaces its bytes.
\<close>

theorem put_on_existing_object_counterexample:
  "read_bytes [''repo'', ''.git'', ''objects'', ''74'', ''72656520300000000000000000000000000000'']
       (example_store ''7472656520300000000000000000000000000000''
          (CHR 0x78 # CHR 0x9C # ''tree 0'' @ [CHR 0x00]))
     = Inr (CHR 0x78 # CHR 0x9C # ''tree 0'' @ [CHR 0x00])
   \<and> create_object toy_codec ''tree'' [] [''repo'']
       (example_store ''7472656520300000000000000000000000000000''
          (CHR 0x78 # CHR 0x9C # ''tree 0'' @ [CHR 0x00]))
     = Inr (''7472656520300000000000000000000000000000'',
            example_store ''7472656520300000000000000000000000000000''
              (CHR 0x78 # CHR 0x01 # ''tree 0'' @ [CHR 0x00]))
   \<and> read_bytes [''repo'', ''.git'', ''objects'', ''74'', ''72656520300000000000000000000000000000'']
       (example_store ''7472656520300000000000000000000000000000''
          (CHR 0x78 # CHR 0x01 # ''tree 0'' @ [CHR 0x00]))
     = Inr (CHR 0x78 # CHR 0x01 # ''tree 0'' @ [CHR 0x00])"
  by (simp add: store_defs)


lemma split_all_nonempty: "split_all sep bs \<noteq> []"
  by (induction bs) (auto split: list.splits)

lemma length_split_all: "length (split_all sep bs) = count_list bs sep + 1"
proof (induction bs)
  case Nil
  then show ?case by simp
next
  case (Cons c bs)
  then show ?case
    using split_all_nonempty [of sep bs] by (auto split: list.splits)
qed

lemma not_two_fields:
  assumes "count_list head sep \<noteq> 1"
  shows "(case split_all sep head of [tip, x] \<Rightarrow> f tip | _ \<Rightarrow> Inl ValueError) = Inl ValueError"
proof -
  from assms length_split_all [of sep head] have "length (split_all sep head) \<noteq> 2"
    by simp
  then show ?thesis
    by (auto split: list.splits)
qed

lemma walk_through_dirs:
  assumes "\<forall>q \<in> set (below a pre). map_of fs q = Some Dir" and "cs \<noteq> []"
  shows "walk fs a (pre @ cs) = walk fs (a @ pre) cs"
  using assms
proof (induction pre arbitrary: a)
  case Nil
  then show ?case by simp
next
  case (Cons c pre)
  from Cons.prems have here: "map_of fs (a @ [c]) = Some Dir"
    and rest: "\<forall>q \<in> set (below (a @ [c]) pre). map_of fs q = Some Dir"
    by simp_all
  from Cons.prems(2) obtain d ds where "pre @ cs = d # ds"
    by (cases "pre @ cs") auto
  then have "walk fs a ((c # pre) @ cs) = walk fs (a @ [c]) (pre @ cs)"
    using here by simp
  also have "\<dots> = walk fs ((a @ [c]) @ pre) cs"
    by (rule Cons.IH [OF rest Cons.prems(2)])
  finally show ?case by simp
qed

lemma walk_missing:
  "map_of fs (a @ [c]) = None \<Longrightarrow> walk fs a (c # rest) = Inl FileNotFoundError"
  by (cases rest) simp_all

lemma walk_file_in_the_way:
  "map_of fs (a @ [c]) = Some (File x) \<Longrightarrow> rest \<noteq> [] \<Longrightarrow>
     walk fs a (c # rest) = Inl NotADirectoryError"
  by (cases rest) simp_all

lemma read_bytes_missing:
  assumes "list_all plain_name (pre @ c # rest)"
    and "\<forall>q \<in> set (below [] pre). map_of fs q = Some Dir"
    and "map_of fs (pre @ [c]) = None"
  shows "read_bytes (pre @ c # rest) fs = Inl FileNotFoundError"
proof -
  have "walk fs [] (pre @ c # rest) = walk fs pre (c # rest)"
    using walk_through_dirs [OF assms(2), of "c # rest"] by simp
  with assms(1,3) show ?thesis
    by (simp add: read_bytes_def stat_def walk_missing)
qed

lemma read_bytes_file_in_the_way:
  assumes "list_all plain_name (pre @ c # rest)"
    and "\<forall>q \<in> set (below [] pre). map_of fs q = Some Dir"
    and "map_of fs (pre @ [c]) = Some (File x)" and "rest \<noteq> []"
  shows "read_bytes (pre @ c # rest) fs = Inl NotADirectoryError"
proof -
  have "walk fs [] (pre @ c # rest) = walk fs pre (c # rest)"
    using walk_through_dirs [OF assms(2), of "c # rest"] by simp
  with assms(1,3,4) show ?thesis
    by (simp add: read_bytes_def stat_def walk_file_in_the_way)
qed

lemma read_bytes_directory:
  assumes "list_all plain_name p" and "p \<noteq> []"
    and "\<forall>q \<in> set (below [] (butlast p)). map_of fs q = Some Dir"
    and "map_of fs p = Some Dir"
  shows "read_bytes p fs = Inl IsADirectoryError"
  using stat_dirs_above [OF assms(1-3)] assms(4) by (simp add: read_bytes_def)

lemma read_object_header:
  assumes "read_bytes (object_path parent sha) fs = Inr bs"
    and "zlib_decompress cd bs = Inr (tip @ CHR '' '' # len @ CHR 0x00 # payload)"
    and "CHR 0x00 \<notin> set tip" and "CHR '' '' \<notin> set tip"
    and "CHR 0x00 \<notin> set len" and "CHR '' '' \<notin> set len"
  shows "read_object cd sha parent fs =
    (if utf8_wellformed (map of_char tip) then Inr (tip, payload) else Inl UnicodeDecodeError)"
proof -
  have "split_once (CHR 0x00) (tip @ CHR '' '' # len @ CHR 0x00 # payload) =
      Inr (tip @ CHR '' '' # len, payload)"
    using split_once_append [of "CHR 0x00" "tip @ CHR '' '' # len" payload] assms(3,5)
    by simp
  moreover have "split_all (CHR '' '') (tip @ CHR '' '' # len) = [tip, len]"
    using assms(4,6) by (simp add: split_all_append split_all_no_sep)
  ultimately show ?thesis
    using assms(1,2) by (simp add: read_object_def decode_def)
qed

text \<open>
  Claim C4, as amended. \<^verbatim>\<open>read_object\<close> fails with \<^verbatim>\<open>FileNotFoundError\<close> when the
  object's path, or a directory on the way to it, does not exist; with
  \<^verbatim>\<open>NotADirectoryError\<close> when a regular file stands in the place of a directory on the
  way; with \<^verbatim>\<open>IsADirectoryError\<close> when a directory stands at the object's path. It fails
  with \<^verbatim>\<open>ValueError\<close> when the inflated bytes hold no NUL, or when the header before the
  first NUL is not exactly two fields separated by one space; and with
  \<^verbatim>\<open>UnicodeDecodeError\<close> when the first field is not well-formed UTF-8. The second field
  is never read: whatever length it declares, \<^verbatim>\<open>read_object\<close> returns the first field
  and all bytes after the first NUL.
\<close>

theorem read_object_checks:
  "(object_path parent sha = pre @ c # rest \<and> list_all plain_name (pre @ c # rest)
        \<and> list_all (\<lambda>q. map_of fs q = Some Dir) (below [] pre)
        \<and> map_of fs (pre @ [c]) = None
      \<longrightarrow> read_object cd sha parent fs = Inl FileNotFoundError)
   \<and> (object_path parent sha = pre @ c # rest \<and> list_all plain_name (pre @ c # rest)
        \<and> list_all (\<lambda>q. map_of fs q = Some Dir) (below [] pre)
        \<and> map_of fs (pre @ [c]) = Some (File x) \<and> rest \<noteq> []
      \<longrightarrow> read_object cd sha parent fs = Inl NotADirectoryError)
   \<and> (list_all plain_name (object_path parent sha)
        \<and> list_all (\<lambda>q. map_of fs q = Some Dir) (below [] (butlast (object_path parent sha)))
        \<and> map_of fs (object_path parent sha) = Some Dir
      \<longrightarrow> read_object cd sha parent fs = Inl IsADirectoryError)
   \<and> (read_bytes (object_path parent sha) fs = Inr bs \<and> zlib_decompress cd bs = Inr raw
        \<and> CHR 0x00 \<notin> set raw
      \<longrightarrow> read_object cd sha parent fs = Inl ValueError)
   \<and> (read_bytes (object_path parent sha) fs = Inr bs
        \<and> zlib_decompress cd bs = Inr (head @ CHR 0x00 # payload)
        \<and> CHR 0x00 \<notin> set head \<and> count_list head (CHR '' '') \<noteq> 1
      \<longrightarrow> read_object cd sha parent fs = Inl ValueError)
   \<and> (read_bytes (object_path parent sha) fs = Inr bs
        \<and> zlib_decompress cd bs = Inr (tip @ CHR '' '' # len @ CHR 0x00 # payload)
        \<and> CHR 0x00 \<notin> set tip \<and> CHR '' '' \<notin> set tip
        \<and> CHR 0x00 \<notin> set len \<and> CHR '' '' \<notin> set len
        \<and> \<not> utf8_wellformed (map of_char tip)
      \<longrightarrow> read_object cd sha parent fs = Inl UnicodeDecodeError)
   \<and> (read_bytes (object_path parent sha) fs = Inr bs
        \<and> zlib_decompress cd bs = Inr (tip @ CHR '' '' # len @ CHR 0x00 # payload)
        \<and> CHR 0x00 \<notin> set tip \<and> CHR '' '' \<notin> set tip
        \<and> CHR 0x00 \<notin> set len \<and> CHR '' '' \<notin> set len
        \<and> utf8_wellformed (map of_char tip)
      \<longrightarrow> read_object cd sha parent fs = Inr (tip, payload))"
proof (intro conjI impI)
  assume a: "object_path parent sha = pre @ c # rest \<and> list_all plain_name (pre @ c # rest)
        \<and> list_all (\<lambda>q. map_of fs q = Some Dir) (below [] pre)
        \<and> map_of fs (pre @ [c]) = None"
  then have "read_bytes (pre @ c # rest) fs = Inl FileNotFoundError"
    by (intro read_bytes_missing) (simp_all add: list_all_iff)
  with a show "read_object cd sha parent fs = Inl FileNotFoundError"
    by (simp add: read_object_def)
next
  assume a: "object_path parent sha = pre @ c # rest \<and> list_all plain_name (pre @ c # rest)
        \<and> list_all (\<lambda>q. map_of fs q = Some Dir) (below [] pre)
        \<and> map_of fs (pre @ [c]) = Some (File x) \<and> rest \<noteq> []"
  then have "read_bytes (pre @ c # rest) fs = Inl NotADirectoryError"
    by (intro read_bytes_file_in_the_way [where x = x]) (simp_all add: list_all_iff)
  with a show "read_object cd sha parent fs = Inl NotADirectoryError"
    by (simp add: read_object_def)
next
  assume a: "list_all plain_name (object_path parent sha)
        \<and> list_all (\<lambda>q. map_of fs q = Some Dir) (below [] (butlast (object_path parent sha)))
        \<and> map_of fs (object_path parent sha) = Some Dir"
  then have "read_bytes (object_path parent sha) fs = Inl IsADirectoryError"
    by (intro read_bytes_directory object_path_nonempty) (simp_all add: list_all_iff)
  then show "read_object cd sha parent fs = Inl IsADirectoryError"
    by (simp add: read_object_def)
next
  assume "read_bytes (object_path parent sha) fs = Inr bs \<and> zlib_decompress cd bs = Inr raw
        \<and> CHR 0x00 \<notin> set raw"
  then show "read_object cd sha parent fs = Inl ValueError"
    by (simp add: read_object_def split_once_def)
next
  assume a: "read_bytes (object_path parent sha) fs = Inr bs
        \<and> zlib_decompress cd bs = Inr (head @ CHR 0x00 # payload)
        \<and> CHR 0x00 \<notin> set head \<and> count_list head (CHR '' '') \<noteq> 1"
  then have "split_once (CHR 0x00) (head @ CHR 0x00 # payload) = Inr (head, payload)"
    by (simp add: split_once_append)
  with a show "read_object cd sha parent fs = Inl ValueError"
    by (simp add: read_object_def not_two_fields)
next
  assume "read_bytes (object_path parent sha) fs = Inr bs
        \<and> zlib_decompress cd bs = Inr (tip @ CHR '' '' # len @ CHR 0x00 # payload)
        \<and> CHR 0x00 \<notin> set tip \<and> CHR '' '' \<notin> set tip
        \<and> CHR 0x00 \<notin> set len \<and> CHR '' '' \<notin> set len
        \<and> \<not> utf8_wellformed (map of_char tip)"
  then show "read_object cd sha parent fs = Inl UnicodeDecodeError"
    using read_object_header [of parent sha fs bs cd tip len payload] by simp
next
  assume "read_bytes (object_path parent sha) fs = Inr bs
        \<and> zlib_decompress cd bs = Inr (tip @ CHR '' '' # len @ CHR 0x00 # payload)
        \<and> CHR 0x00 \<notin> set tip \<and> CHR '' '' \<notin> set tip
        \<and> CHR 0x00 \<notin> set len \<and> CHR '' '' \<notin> set len
        \<and> utf8_wellformed (map of_char tip)"
  then show "read_object cd sha parent fs = Inr (tip, payload)"
    using read_object_header [of parent sha fs bs cd tip len payload] by simp
qed

theorem read_object_checks_witness:
  "object_path [''repo''] ''626c6f6220350068690000000000000000000000'' =
     [''repo'', ''.git'', ''objects'', ''62'', ''6c6f6220350068690000000000000000000000'']
   \<and> read_object toy_codec ''626c6f6220350068690000000000000000000000'' [''repo'']
       [([''repo''], Dir), ([''repo'', ''.git''], Dir), ([''repo'', ''.git'', ''objects''], Dir),
        ([''repo'', ''.git'', ''objects'', ''62''], Dir)]
     = Inl FileNotFoundError
   \<and> read_object toy_codec ''626c6f6220350068690000000000000000000000'' [''repo'']
       [([''repo''], Dir), ([''repo'', ''.git''], Dir), ([''repo'', ''.git'', ''objects''], Dir),
        ([''repo'', ''.git'', ''objects'', ''62''], File ''x'')]
     = Inl NotADirectoryError
   \<and> read_object toy_codec ''626c6f6220350068690000000000000000000000'' [''repo'']
       [([''repo''], Dir), ([''repo'', ''.git''], Dir), ([''repo'', ''.git'', ''objects''], Dir),
        ([''repo'', ''.git'', ''objects'', ''62''], Dir),
        ([''repo'', ''.git'', ''objects'', ''62'', ''6c6f6220350068690000000000000000000000''],
         Dir)]
     = Inl IsADirectoryError
   \<and> read_object toy_codec ''626c6f6220350068690000000000000000000000'' [''repo'']
       (example_store ''626c6f6220350068690000000000000000000000''
          (CHR 0x78 # CHR 0x01 # ''garbage''))
     = Inl ValueError
   \<and> read_object toy_codec ''626c6f6220350068690000000000000000000000'' [''repo'']
       (example_store ''626c6f6220350068690000000000000000000000''
          (CHR 0x78 # CHR 0x01 # ''blob'' @ CHR 0x00 # ''hi''))
     = Inl ValueError
   \<and> read_object toy_codec ''626c6f6220350068690000000000000000000000'' [''repo'']
       (example_store ''626c6f6220350068690000000000000000000000''
          (CHR 0x78 # CHR 0x01 # CHR 0xFF # '' 2'' @ CHR 0x00 # ''hi''))
     = Inl UnicodeDecodeError
   \<and> read_object toy_codec ''626c6f6220350068690000000000000000000000'' [''repo'']
       (example_store ''626c6f6220350068690000000000000000000000''
          (CHR 0x78 # CHR 0x01 # ''blob 2'' @ CHR 0x00 # ''hi''))
     = Inr (''blob'', ''hi'')"
  (is "?path \<and> ?r1 \<and> ?r2 \<and> ?r3 \<and> ?r4 \<and> ?r5 \<and> ?r6 \<and> ?r7")
proof -
  let ?sha = "''626c6f6220350068690000000000000000000000''"
  let ?leaf = "''6c6f6220350068690000000000000000000000''"
  let ?p = "object_path [''repo''] ?sha"
  note t = read_object_checks [where cd = toy_codec and parent = "[''repo'']" and sha = ?sha]
  have path: ?path
    by (simp add: object_path_def path_join_def)
  have r1: ?r1
    by (rule t [where pre = "[''repo'', ''.git'', ''objects'', ''62'']" and c = ?leaf
          and rest = "[]", THEN conjunct1, rule_format])
       (simp add: path plain_name_def)
  have r2: ?r2
    by (rule t [where pre = "[''repo'', ''.git'', ''objects'']" and c = "''62''"
          and rest = "[?leaf]" and x = "''x''", THEN conjunct2, THEN conjunct1, rule_format])
       (simp add: path plain_name_def)
  have r3: ?r3
    by (rule t [THEN conjunct2, THEN conjunct2, THEN conjunct1, rule_format])
       (simp add: path plain_name_def)
  have rd: "read_bytes ?p (example_store ?sha v) = Inr v" for v
    by (simp add: read_bytes_def stat_def object_path_def path_join_def plain_name_def
        example_store_def)
  have z: "zlib_decompress toy_codec (CHR 0x78 # CHR 0x01 # raw) = Inr raw" for raw
    by (simp add: toy_codec_def)
  have r4: ?r4
    by (rule t [where bs = "CHR 0x78 # CHR 0x01 # ''garbage''" and raw = "''garbage''",
          THEN conjunct2, THEN conjunct2, THEN conjunct2, THEN conjunct1, rule_format])
       (simp add: rd z)
  have r5: ?r5
    by (rule t [where bs = "CHR 0x78 # CHR 0x01 # ''blob'' @ CHR 0x00 # ''hi''"
          and head = "''blob''" and payload = "''hi''",
          THEN conjunct2, THEN conjunct2, THEN conjunct2, THEN conjunct2, THEN conjunct1,
          rule_format])
       (simp add: rd z)
  have r6: ?r6
    by (rule t [where bs = "CHR 0x78 # CHR 0x01 # CHR 0xFF # '' 2'' @ CHR 0x00 # ''hi''"
          and tip = "[CHR 0xFF]" and len = "''2''" and payload = "''hi''",
          THEN conjunct2, THEN conjunct2, THEN conjunct2, THEN conjunct2, THEN conjunct2,
          THEN conjunct1, rule_format])
       (simp add: rd z)
  have r7: ?r7
    by (rule t [where bs = "CHR 0x78 # CHR 0x01 # ''blob 2'' @ CHR 0x00 # ''hi''"
          and tip = "''blob''" and len = "''2''" and payload = "''hi''",
          THEN conjunct2, THEN conjunct2, THEN conjunct2, THEN conjunct2, THEN conjunct2,
          THEN conjunct2, rule_format])
       (simp add: rd z)
  from path r1 r2 r3 r4 r5 r6 r7 show ?thesis
    by blast
qed

text \<open>
  The claim as first stated fails: the header below declares five bytes, the payload
  has two, and \<^verbatim>\<open>read_object\<close> returns the payload.
\<close>

theorem declared_length_unchecked_counterexample:
  "length ''hi'' \<noteq> 5
   \<and> read_object toy_codec ''626c6f6220350068690000000000000000000000'' [''repo'']
       (example_store ''626c6f6220350068690000000000000000000000''
          (CHR 0x78 # CHR 0x01 # ''blob 5'' @ CHR 0x00 # ''hi''))
     = Inr (''blob'', ''hi'')"
  by (simp add: store_defs)

section \<open>Properties of the pack decoder\<close>

lemma ref_delta_general:
  assumes "next_size_and_type pack_file = Inr (''ref_delta'', sz, rest)"
    and "unpack_entry cd parent pack_file fs = Inr (pack_file', fs')"
  shows "\<exists>base_tip base_content content target_content.
      zlib_decompressobj cd (drop 20 rest) = Inr (content, pack_file')
    \<and> read_object cd (hex (take 20 rest)) parent fs = Inr (base_tip, base_content)
    \<and> apply_delta base_content content = Inr target_content
    \<and> create_object cd base_tip target_content parent fs =
         Inr (sha1_hexdigest cd (framed base_tip target_content), fs')
    \<and> read_bytes (object_path parent (sha1_hexdigest cd (framed base_tip target_content))) fs' =
         Inr (zlib_compress cd Z_BEST_SPEED (framed base_tip target_content))"
proof -
  from assms have rd: "ref_delta_entry cd parent rest fs = Inr (pack_file', fs')"
    by (simp add: unpack_entry_def)
  then obtain content base_tip base_content target_content sha
    where z: "zlib_decompressobj cd (drop 20 rest) = Inr (content, pack_file')"
      and b: "read_object cd (hex (take 20 rest)) parent fs = Inr (base_tip, base_content)"
      and d: "apply_delta base_content content = Inr target_content"
      and c: "create_object cd base_tip target_content parent fs = Inr (sha, fs')"
    by (auto simp: ref_delta_entry_def split: sum.splits)
  note k = create_object_Inr [OF c]
  have "read_bytes (object_path parent sha) fs' =
      Inr (zlib_compress cd Z_BEST_SPEED (framed base_tip target_content))"
    by (rule stored_object_readable [OF k(3) object_path_nonempty k(4) k(5)])
  with z b d c k(1) show ?thesis
    by blast
qed


lemmas pack_defs = unpack_entry_def ref_delta_entry_def next_size_and_type_def byte_at_def
  size_loop.simps type_name_def apply_delta_def next_size_def apply_instructions.simps
  copy_args_def slice_def fox_store_def fox_ref_delta_def framed_def

lemma fox_run:
  "unpack_entry toy_codec [''repo''] fox_ref_delta fox_store =
     Inr ([], fox_store @
       [([''repo'', ''.git'', ''objects'', ''62'', ''6c6f622032330054686520717569636b6c617a''],
         File (CHR 0x78 # CHR 0x01 # ''blob 23'' @ CHR 0x00 # ''The quicklazy brown fox''))])"
  by (simp add: pack_defs store_defs)

text \<open>
  Claim C2. Whenever the loop accepts a \<^verbatim>\<open>ref_delta\<close> entry, the entry's delta was
  applied to the payload of the object named by the entry's 20 bytes, and the result
  was handed to \<^verbatim>\<open>create_object\<close> with the type read from that base object: its
  identifier is the SHA-1 of its framed form, and the file at the identifier's path
  holds that framed form, compressed. In particular, with the blob
  \<^verbatim>\<open>The quick brown fox\<close> in the store and the program copy offset 0 size 9, insert
  \<^verbatim>\<open>lazy \<close>, copy offset 10 size 9, the store afterwards holds the blob
  \<^verbatim>\<open>The quicklazy brown fox\<close>.
\<close>

theorem ref_delta_stored_with_base_type:
  "(next_size_and_type pack_file = Inr (''ref_delta'', sz, rest)
      \<and> unpack_entry cd parent pack_file fs = Inr (pack_file', fs')
    \<longrightarrow> (\<exists>base_tip base_content content target_content.
          zlib_decompressobj cd (drop 20 rest) = Inr (content, pack_file')
        \<and> read_object cd (hex (take 20 rest)) parent fs = Inr (base_tip, base_content)
        \<and> apply_delta base_content content = Inr target_content
        \<and> create_object cd base_tip target_content parent fs =
             Inr (sha1_hexdigest cd (framed base_tip target_content), fs')
        \<and> read_bytes (object_path parent (sha1_hexdigest cd (framed base_tip target_content))) fs' =
             Inr (zlib_compress cd Z_BEST_SPEED (framed base_tip target_content))))
   \<and> read_object toy_codec ''626c6f622031390054686520717569636b206272'' [''repo''] fox_store
        = Inr (''blob'', ''The quick brown fox'')
   \<and> (case unpack_entry toy_codec [''repo''] fox_ref_delta fox_store of
         Inl e \<Rightarrow> False
       | Inr (unused, fs2) \<Rightarrow>
           unused = []
           \<and> read_object toy_codec ''626c6f622032330054686520717569636b6c617a'' [''repo''] fs2
               = Inr (''blob'', ''The quicklazy brown fox''))"
proof (intro conjI impI)
  assume "next_size_and_type pack_file = Inr (''ref_delta'', sz, rest)
      \<and> unpack_entry cd parent pack_file fs = Inr (pack_file', fs')"
  then show "\<exists>base_tip base_content content target_content.
          zlib_decompressobj cd (drop 20 rest) = Inr (content, pack_file')
        \<and> read_object cd (hex (take 20 rest)) parent fs = Inr (base_tip, base_content)
        \<and> apply_delta base_content content = Inr target_content
        \<and> create_object cd base_tip target_content parent fs =
             Inr (sha1_hexdigest cd (framed base_tip target_content), fs')
        \<and> read_bytes (object_path parent (sha1_hexdigest cd (framed base_tip target_content))) fs' =
             Inr (zlib_compress cd Z_BEST_SPEED (framed base_tip target_content))"
    using ref_delta_general by blast
next
  show "read_object toy_codec ''626c6f622031390054686520717569636b206272'' [''repo''] fox_store
        = Inr (''blob'', ''The quick brown fox'')"
    by (simp add: fox_store_def store_defs)
next
  show "case unpack_entry toy_codec [''repo''] fox_ref_delta fox_store of
         Inl e \<Rightarrow> False
       | Inr (unused, fs2) \<Rightarrow>
           unused = []
           \<and> read_object toy_codec ''626c6f622032330054686520717569636b6c617a'' [''repo''] fs2
               = Inr (''blob'', ''The quicklazy brown fox'')"
    unfolding fox_run by (simp add: fox_store_def store_defs)
qed


theorem ref_delta_stored_with_base_type_witness:
  "next_size_and_type fox_ref_delta = Inr (''ref_delta'', 13, drop 1 fox_ref_delta)
   \<and> unpack_entry toy_codec [''repo''] fox_ref_delta fox_store =
       Inr ([], fox_store @
         [([''repo'', ''.git'', ''objects'', ''62'', ''6c6f622032330054686520717569636b6c617a''],
           File (CHR 0x78 # CHR 0x01 # ''blob 23'' @ CHR 0x00 # ''The quicklazy brown fox''))])
   \<and> (\<exists>base_tip base_content content target_content.
          zlib_decompressobj toy_codec (drop 20 (drop 1 fox_ref_delta)) = Inr (content, [])
        \<and> read_object toy_codec (hex (take 20 (drop 1 fox_ref_delta))) [''repo''] fox_store =
             Inr (base_tip, base_content)
        \<and> apply_delta base_content content = Inr target_content
        \<and> create_object toy_codec base_tip target_content [''repo''] fox_store =
             Inr (sha1_hexdigest toy_codec (framed base_tip target_content),
                  fox_store @
                  [([''repo'', ''.git'', ''objects'', ''62'',
                     ''6c6f622032330054686520717569636b6c617a''],
                    File (CHR 0x78 # CHR 0x01 # ''blob 23'' @ CHR 0x00 #
                          ''The quicklazy brown fox''))])
        \<and> read_bytes
             (object_path [''repo''] (sha1_hexdigest toy_codec (framed base_tip target_content)))
             (fox_store @
              [([''repo'', ''.git'', ''objects'', ''62'',
                 ''6c6f622032330054686520717569636b6c617a''],
                File (CHR 0x78 # CHR 0x01 # ''blob 23'' @ CHR 0x00 #
                      ''The quicklazy brown fox''))]) =
             Inr (zlib_compress toy_codec Z_BEST_SPEED (framed base_tip target_content)))"
  (is "?h1 \<and> ?h2 \<and> ?c")
proof -
  have h1: ?h1
    by (simp add: next_size_and_type_def byte_at_def size_loop.simps type_name_def
        fox_ref_delta_def)
  have h2: ?h2
    by (rule fox_run)
  from ref_delta_stored_with_base_type [THEN conjunct1, rule_format, OF conjI [OF h1 h2]]
  have ?c .
  with h1 h2 show ?thesis
    by blast
qed

section \<open>Properties of the tree serializer\<close>

lemma to_bytes20_length: "to_bytes20 v = Inr oid \<Longrightarrow> length oid = 20"
  by (auto simp: to_bytes20_def split: if_splits)

lemma write_tree_items_entries:
  "write_tree_items cd cwd n path items acc fs = Inr (out, fs') \<Longrightarrow>
     \<exists>entries. out = acc @ concat entries
       \<and> list_all2 tree_entry_of (filter (\<lambda>x. x \<noteq> ''.git'') items) entries"
proof (induction items arbitrary: acc fs)
  case Nil
  then show ?case by simp
next
  case (Cons item items)
  show ?case
  proof (cases "item = ''.git''")
    case True
    with Cons.prems have "write_tree_items cd cwd n path items acc fs = Inr (out, fs')"
      by simp
    from Cons.IH [OF this] True show ?thesis
      by simp
  next
    case False
    define mode where "mode = (if isfile fs (path @ [item]) then ''100644'' else ''40000'')"
    from Cons.prems False obtain sha fs1 v oid
      where "write_tree cd cwd n (path @ [item]) fs = Inr (sha, fs1)"
        and "int16 sha = Inr v" and oid: "to_bytes20 v = Inr oid"
        and rest: "write_tree_items cd cwd n path items
            (acc @ mode @ '' '' @ item @ [CHR 0x00] @ oid) fs1 = Inr (out, fs')"
      by (auto simp: mode_def split: sum.splits)
    from Cons.IH [OF rest] obtain entries
      where out: "out = (acc @ mode @ '' '' @ item @ [CHR 0x00] @ oid) @ concat entries"
        and es: "list_all2 tree_entry_of (filter (\<lambda>x. x \<noteq> ''.git'') items) entries"
      by blast
    have "tree_entry_of item (mode @ '' '' @ item @ [CHR 0x00] @ oid)"
      unfolding tree_entry_of_def using to_bytes20_length [OF oid] mode_def by auto
    with es have "list_all2 tree_entry_of (filter (\<lambda>x. x \<noteq> ''.git'') (item # items))
        ((mode @ '' '' @ item @ [CHR 0x00] @ oid) # entries)"
      using False by simp
    moreover have "out = acc @ concat ((mode @ '' '' @ item @ [CHR 0x00] @ oid) # entries)"
      using out by simp
    ultimately show ?thesis
      by blast
  qed
qed

lemma write_tree_directory:
  assumes "\<not> isfile fs path" and "listdir fs path = Inr names"
    and "write_tree cd cwd (Suc n) path fs = Inr (sha, fs')"
  shows "\<exists>tree_entries fs1.
      write_tree_items cd cwd n path (sort_key (tree_sort_key fs path) names) [] fs
        = Inr (tree_entries, fs1)
    \<and> sha = sha1_hexdigest cd (framed ''tree'' tree_entries)
    \<and> read_bytes (object_path cwd sha) fs' =
        Inr (zlib_compress cd Z_DEFAULT_COMPRESSION (framed ''tree'' tree_entries))"
proof -
  from assms obtain tree_entries fs1 fs2
    where items: "write_tree_items cd cwd n path (sort_key (tree_sort_key fs path) names) [] fs
        = Inr (tree_entries, fs1)"
      and "mkdir_parents_exist_ok
            (butlast (object_path cwd (sha1_hexdigest cd (framed ''tree'' tree_entries)))) fs1
          = Inr fs2"
      and wr: "write_bytes (object_path cwd (sha1_hexdigest cd (framed ''tree'' tree_entries)))
            (zlib_compress cd Z_DEFAULT_COMPRESSION (framed ''tree'' tree_entries)) fs2 = Inr fs'"
      and sha: "sha = sha1_hexdigest cd (framed ''tree'' tree_entries)"
    by (auto simp: Let_def framed_def split: sum.splits)
  from read_after_write [OF wr] items sha show ?thesis
    by blast
qed

text \<open>
  The run of \<^verbatim>\<open>write_tree\<close> on the first working directory, step by step: the blob of
  \<^verbatim>\<open>foo\<close>, the empty tree of \<^verbatim>\<open>foo-bar\<close>, the two entries, and the tree of the
  directory itself.
\<close>

lemma foo_blob_written:
  "write_tree toy_codec [''repo''] (Suc 0) [''repo'', ''foo''] foo_file_tree =
     Inr (''626c6f6220310041000000000000000000000000'',
      foo_file_tree @
      [([''repo'', ''.git'', ''objects''], Dir),
       ([''repo'', ''.git'', ''objects'', ''62''], Dir),
       ([''repo'', ''.git'', ''objects'', ''62'', ''6c6f6220310041000000000000000000000000''], File ([CHR ''x'', CHR 0x01, CHR ''b'', CHR ''l'', CHR ''o'', CHR ''b'', CHR '' '', CHR ''1'', CHR 0x00, CHR ''A'']))])"
  by (simp add: foo_file_tree_def isfile_def store_defs)

lemma foo_bar_written:
  "write_tree toy_codec [''repo''] (Suc 0) [''repo'', ''foo-bar'']
     (foo_file_tree @
      [([''repo'', ''.git'', ''objects''], Dir),
       ([''repo'', ''.git'', ''objects'', ''62''], Dir),
       ([''repo'', ''.git'', ''objects'', ''62'', ''6c6f6220310041000000000000000000000000''], File ([CHR ''x'', CHR 0x01, CHR ''b'', CHR ''l'', CHR ''o'', CHR ''b'', CHR '' '', CHR ''1'', CHR 0x00, CHR ''A'']))]) =
     Inr (''7472656520300000000000000000000000000000'',
      foo_file_tree @
      [([''repo'', ''.git'', ''objects''], Dir),
       ([''repo'', ''.git'', ''objects'', ''62''], Dir),
       ([''repo'', ''.git'', ''objects'', ''62'', ''6c6f6220310041000000000000000000000000''], File ([CHR ''x'', CHR 0x01, CHR ''b'', CHR ''l'', CHR ''o'', CHR ''b'', CHR '' '', CHR ''1'', CHR 0x00, CHR ''A''])),
       ([''repo'', ''.git'', ''objects'', ''74''], Dir),
       ([''repo'', ''.git'', ''objects'', ''74'', ''72656520300000000000000000000000000000''], File ([CHR ''x'', CHR 0x9C, CHR ''t'', CHR ''r'', CHR ''e'', CHR ''e'', CHR '' '', CHR ''0'', CHR 0x00]))])"
proof -
  have a: "isfile (foo_file_tree @
      [([''repo'', ''.git'', ''objects''], Dir),
       ([''repo'', ''.git'', ''objects'', ''62''], Dir),
       ([''repo'', ''.git'', ''objects'', ''62'', ''6c6f6220310041000000000000000000000000''], File ([CHR ''x'', CHR 0x01, CHR ''b'', CHR ''l'', CHR ''o'', CHR ''b'', CHR '' '', CHR ''1'', CHR 0x00, CHR ''A'']))]) [''repo'', ''foo-bar''] = False"
    by (simp add: isfile_def stat_def plain_name_def foo_file_tree_def)
  have b: "listdir (foo_file_tree @
      [([''repo'', ''.git'', ''objects''], Dir),
       ([''repo'', ''.git'', ''objects'', ''62''], Dir),
       ([''repo'', ''.git'', ''objects'', ''62'', ''6c6f6220310041000000000000000000000000''], File ([CHR ''x'', CHR 0x01, CHR ''b'', CHR ''l'', CHR ''o'', CHR ''b'', CHR '' '', CHR ''1'', CHR 0x00, CHR ''A'']))]) [''repo'', ''foo-bar''] = Inr []"
    by (simp add: listdir_def stat_def plain_name_def foo_file_tree_def)
  show ?thesis
    apply (simp only: write_tree.simps a b if_False sum.case sort_key_simps)
    apply (simp only: write_tree_items.simps sum.case prod.case)
    apply (simp add: Let_def str_nat.simps digit_char_def toy_codec_def hex_def)
    apply (simp add: object_path_def path_join_def mkdir_parents_exist_ok_def plain_name_def
        foo_file_tree_def)
    apply (simp add: write_bytes_def stat_def plain_name_def Z_DEFAULT_COMPRESSION_def
        toy_codec_def)
    done
qed

lemma foo_blob_oid:
  "int16 ''626c6f6220310041000000000000000000000000'' = Inr 561899278876377687874497230175106189772923600896"
  "to_bytes20 561899278876377687874497230175106189772923600896 =
     Inr ([CHR ''b'', CHR ''l'', CHR ''o'', CHR ''b'', CHR '' '', CHR ''1'', CHR 0x00, CHR ''A'', CHR 0x00, CHR 0x00, CHR 0x00, CHR 0x00, CHR 0x00, CHR 0x00, CHR 0x00, CHR 0x00, CHR 0x00, CHR 0x00, CHR 0x00, CHR 0x00])"
  by (simp_all add: int16_def hex_value_def to_bytes20_def char_of_def bit_iff_odd)

lemma foo_bar_oid:
  "int16 ''7472656520300000000000000000000000000000'' = Inr 664794047120380568763202860181424052653514555392"
  "to_bytes20 664794047120380568763202860181424052653514555392 =
     Inr ([CHR ''t'', CHR ''r'', CHR ''e'', CHR ''e'', CHR '' '', CHR ''0'', CHR 0x00, CHR 0x00, CHR 0x00, CHR 0x00, CHR 0x00, CHR 0x00, CHR 0x00, CHR 0x00, CHR 0x00, CHR 0x00, CHR 0x00, CHR 0x00, CHR 0x00, CHR 0x00])"
  by (simp_all add: int16_def hex_value_def to_bytes20_def char_of_def bit_iff_odd)

lemma foo_file_tree_items:
  "write_tree_items toy_codec [''repo''] (Suc 0) [''repo''] [''.git'', ''foo'', ''foo-bar''] []
     foo_file_tree =
     Inr ([CHR ''1'', CHR ''0'', CHR ''0'', CHR ''6'', CHR ''4'', CHR ''4'', CHR '' '', CHR ''f'', CHR ''o'', CHR ''o'', CHR 0x00, CHR ''b'', CHR ''l'', CHR ''o'', CHR ''b'', CHR '' '', CHR ''1'', CHR 0x00, CHR ''A'', CHR 0x00, CHR 0x00, CHR 0x00, CHR 0x00, CHR 0x00, CHR 0x00, CHR 0x00, CHR 0x00, CHR 0x00, CHR 0x00, CHR 0x00, CHR 0x00, CHR ''4'', CHR ''0'', CHR ''0'', CHR ''0'', CHR ''0'', CHR '' '', CHR ''f'', CHR ''o'', CHR ''o'', CHR ''-'', CHR ''b'', CHR ''a'', CHR ''r'', CHR 0x00, CHR ''t'', CHR ''r'', CHR ''e'', CHR ''e'', CHR '' '', CHR ''0'', CHR 0x00, CHR 0x00, CHR 0x00, CHR 0x00, CHR 0x00, CHR 0x00, CHR 0x00, CHR 0x00, CHR 0x00, CHR 0x00, CHR 0x00, CHR 0x00, CHR 0x00, CHR 0x00],
      foo_file_tree @
      [([''repo'', ''.git'', ''objects''], Dir),
       ([''repo'', ''.git'', ''objects'', ''62''], Dir),
       ([''repo'', ''.git'', ''objects'', ''62'', ''6c6f6220310041000000000000000000000000''], File ([CHR ''x'', CHR 0x01, CHR ''b'', CHR ''l'', CHR ''o'', CHR ''b'', CHR '' '', CHR ''1'', CHR 0x00, CHR ''A''])),
       ([''repo'', ''.git'', ''objects'', ''74''], Dir),
       ([''repo'', ''.git'', ''objects'', ''74'', ''72656520300000000000000000000000000000''], File ([CHR ''x'', CHR 0x9C, CHR ''t'', CHR ''r'', CHR ''e'', CHR ''e'', CHR '' '', CHR ''0'', CHR 0x00]))])"
proof -
  have n1: "(''foo'' = ''.git'') = False" and n2: "(''foo-bar'' = ''.git'') = False"
    by simp_all
  have f1: "isfile foo_file_tree [''repo'', ''foo''] = True"
    by (simp add: isfile_def stat_def plain_name_def foo_file_tree_def)
  have f2: "isfile (foo_file_tree @
      [([''repo'', ''.git'', ''objects''], Dir),
       ([''repo'', ''.git'', ''objects'', ''62''], Dir),
       ([''repo'', ''.git'', ''objects'', ''62'', ''6c6f6220310041000000000000000000000000''], File ([CHR ''x'', CHR 0x01, CHR ''b'', CHR ''l'', CHR ''o'', CHR ''b'', CHR '' '', CHR ''1'', CHR 0x00, CHR ''A'']))]) [''repo'', ''foo-bar''] = False"
    by (simp add: isfile_def stat_def plain_name_def foo_file_tree_def)
  show ?thesis
    apply (simp only: write_tree_items.simps n1 n2 if_True if_False append.simps
        foo_blob_written foo_bar_written foo_blob_oid foo_bar_oid f1 f2 sum.case prod.case)
    apply simp
    done
qed

lemma foo_file_tree_written:
  "write_tree toy_codec [''repo''] (Suc (Suc 0)) [''repo''] foo_file_tree =
     Inr (''747265652036350031303036343420666f6f0062'',
      foo_file_tree @
      [([''repo'', ''.git'', ''objects''], Dir),
       ([''repo'', ''.git'', ''objects'', ''62''], Dir),
       ([''repo'', ''.git'', ''objects'', ''62'', ''6c6f6220310041000000000000000000000000''], File ([CHR ''x'', CHR 0x01, CHR ''b'', CHR ''l'', CHR ''o'', CHR ''b'', CHR '' '', CHR ''1'', CHR 0x00, CHR ''A''])),
       ([''repo'', ''.git'', ''objects'', ''74''], Dir),
       ([''repo'', ''.git'', ''objects'', ''74'', ''72656520300000000000000000000000000000''], File ([CHR ''x'', CHR 0x9C, CHR ''t'', CHR ''r'', CHR ''e'', CHR ''e'', CHR '' '', CHR ''0'', CHR 0x00])),
       ([''repo'', ''.git'', ''objects'', ''74'', ''7265652036350031303036343420666f6f0062''], File ([CHR ''x'', CHR 0x9C, CHR ''t'', CHR ''r'', CHR ''e'', CHR ''e'', CHR '' '', CHR ''6'', CHR ''5'', CHR 0x00, CHR ''1'', CHR ''0'', CHR ''0'', CHR ''6'', CHR ''4'', CHR ''4'', CHR '' '', CHR ''f'', CHR ''o'', CHR ''o'', CHR 0x00, CHR ''b'', CHR ''l'', CHR ''o'', CHR ''b'', CHR '' '', CHR ''1'', CHR 0x00, CHR ''A'', CHR 0x00, CHR 0x00, CHR 0x00, CHR 0x00, CHR 0x00, CHR 0x00, CHR 0x00, CHR 0x00, CHR 0x00, CHR 0x00, CHR 0x00, CHR 0x00, CHR ''4'', CHR ''0'', CHR ''0'', CHR ''0'', CHR ''0'', CHR '' '', CHR ''f'', CHR ''o'', CHR ''o'', CHR ''-'', CHR ''b'', CHR ''a'', CHR ''r'', CHR 0x00, CHR ''t'', CHR ''r'', CHR ''e'', CHR ''e'', CHR '' '', CHR ''0'', CHR 0x00, CHR 0x00, CHR 0x00, CHR 0x00, CHR 0x00, CHR 0x00, CHR 0x00, CHR 0x00, CHR 0x00, CHR 0x00, CHR 0x00, CHR 0x00, CHR 0x00, CHR 0x00]))])"
proof -
  have a: "isfile foo_file_tree [''repo''] = False"
    by (simp add: isfile_def stat_def plain_name_def foo_file_tree_def)
  have b: "listdir foo_file_tree [''repo''] = Inr [''foo-bar'', ''foo'', ''.git'']"
    by (simp add: listdir_def stat_def plain_name_def foo_file_tree_def)
  have c: "sort_key (tree_sort_key foo_file_tree [''repo'']) [''foo-bar'', ''foo'', ''.git'']
             = [''.git'', ''foo'', ''foo-bar'']"
    by (simp add: tree_sort_key_def isfile_def stat_def plain_name_def foo_file_tree_def)
  show ?thesis
    apply (simp only: write_tree.simps(2) a b c if_False sum.case foo_file_tree_items prod.case)
    apply (simp add: Let_def str_nat.simps digit_char_def toy_codec_def hex_def)
    apply (simp add: object_path_def path_join_def mkdir_parents_exist_ok_def plain_name_def
        foo_file_tree_def)
    apply (simp add: write_bytes_def stat_def plain_name_def Z_DEFAULT_COMPRESSION_def
        toy_codec_def)
    done
qed

text \<open>
  Claim C3. For every directory that \<^verbatim>\<open>write_tree\<close> captures, the tree it writes is the
  concatenation of one entry per child other than \<^verbatim>\<open>.git\<close>, and the children appear
  in ascending order of their sort key, compared byte by byte: the child's name for a
  regular file, the name followed by \<^verbatim>\<open>/\<close> for anything else. So the file \<^verbatim>\<open>foo\<close>
  comes before the directory \<^verbatim>\<open>foo-bar\<close>, and the file \<^verbatim>\<open>foo-bar\<close> before the
  directory \<^verbatim>\<open>foo\<close>.
\<close>

theorem tree_entries_in_key_order:
  "(\<not> isfile fs path \<and> listdir fs path = Inr names
      \<and> write_tree cd cwd (Suc n) path fs = Inr (sha, fs')
    \<longrightarrow> (\<exists>items entries.
          set items = set names - {''.git''}
        \<and> length items = length (filter (\<lambda>x. x \<noteq> ''.git'') names)
        \<and> sorted (map (tree_sort_key fs path) items)
        \<and> list_all2 tree_entry_of items entries
        \<and> sha = sha1_hexdigest cd (framed ''tree'' (concat entries))
        \<and> read_bytes (object_path cwd sha) fs' =
            Inr (zlib_compress cd Z_DEFAULT_COMPRESSION (framed ''tree'' (concat entries)))))
   \<and> tree_sort_key foo_file_tree [''repo''] ''foo'' = ''foo''
   \<and> tree_sort_key foo_file_tree [''repo''] ''foo-bar'' = ''foo-bar/''
   \<and> sort_key (tree_sort_key foo_file_tree [''repo'']) [''foo-bar'', ''foo'']
       = [''foo'', ''foo-bar'']
   \<and> tree_sort_key foo_dir_tree [''repo''] ''foo'' = ''foo/''
   \<and> tree_sort_key foo_dir_tree [''repo''] ''foo-bar'' = ''foo-bar''
   \<and> sort_key (tree_sort_key foo_dir_tree [''repo'']) [''foo'', ''foo-bar'']
       = [''foo-bar'', ''foo'']"
proof (intro conjI impI)
  assume a: "\<not> isfile fs path \<and> listdir fs path = Inr names
      \<and> write_tree cd cwd (Suc n) path fs = Inr (sha, fs')"
  define items where
    "items = filter (\<lambda>x. x \<noteq> ''.git'') (sort_key (tree_sort_key fs path) names)"
  from a write_tree_directory [of fs path names cd cwd n sha fs'] obtain tree_entries fs1
    where run: "write_tree_items cd cwd n path (sort_key (tree_sort_key fs path) names) [] fs
        = Inr (tree_entries, fs1)"
      and sha: "sha = sha1_hexdigest cd (framed ''tree'' tree_entries)"
      and rd: "read_bytes (object_path cwd sha) fs' =
        Inr (zlib_compress cd Z_DEFAULT_COMPRESSION (framed ''tree'' tree_entries))"
    by blast
  from write_tree_items_entries [OF run] obtain entries
    where te: "tree_entries = concat entries" and es: "list_all2 tree_entry_of items entries"
    by (auto simp: items_def)
  have "set items = set names - {''.git''}"
    by (auto simp: items_def)
  moreover have "length items = length (filter (\<lambda>x. x \<noteq> ''.git'') names)"
    by (simp add: items_def filter_sort)
  moreover have "sorted (map (tree_sort_key fs path) items)"
    unfolding items_def by (simp add: sorted_filter)
  ultimately show "\<exists>items entries.
          set items = set names - {''.git''}
        \<and> length items = length (filter (\<lambda>x. x \<noteq> ''.git'') names)
        \<and> sorted (map (tree_sort_key fs path) items)
        \<and> list_all2 tree_entry_of items entries
        \<and> sha = sha1_hexdigest cd (framed ''tree'' (concat entries))
        \<and> read_bytes (object_path cwd sha) fs' =
            Inr (zlib_compress cd Z_DEFAULT_COMPRESSION (framed ''tree'' (concat entries)))"
    using es sha rd te by blast
qed (simp_all add: tree_sort_key_def isfile_def stat_def plain_name_def foo_file_tree_def
    foo_dir_tree_def)

theorem tree_entries_in_key_order_witness:
  "(\<not> isfile foo_file_tree [''repo'']
      \<and> listdir foo_file_tree [''repo''] = Inr [''foo-bar'', ''foo'', ''.git'']
      \<and> write_tree toy_codec [''repo''] (Suc (Suc 0)) [''repo''] foo_file_tree =
          Inr (''747265652036350031303036343420666f6f0062'',
      foo_file_tree @
      [([''repo'', ''.git'', ''objects''], Dir),
       ([''repo'', ''.git'', ''objects'', ''62''], Dir),
       ([''repo'', ''.git'', ''objects'', ''62'', ''6c6f6220310041000000000000000000000000''], File ([CHR ''x'', CHR 0x01, CHR ''b'', CHR ''l'', CHR ''o'', CHR ''b'', CHR '' '', CHR ''1'', CHR 0x00, CHR ''A''])),
       ([''repo'', ''.git'', ''objects'', ''74''], Dir),
       ([''repo'', ''.git'', ''objects'', ''74'', ''72656520300000000000000000000000000000''], File ([CHR ''x'', CHR 0x9C, CHR ''t'', CHR ''r'', CHR ''e'', CHR ''e'', CHR '' '', CHR ''0'', CHR 0x00])),
       ([''repo'', ''.git'', ''objects'', ''74'', ''7265652036350031303036343420666f6f0062''], File ([CHR ''x'', CHR 0x9C, CHR ''t'', CHR ''r'', CHR ''e'', CHR ''e'', CHR '' '', CHR ''6'', CHR ''5'', CHR 0x00, CHR ''1'', CHR ''0'', CHR ''0'', CHR ''6'', CHR ''4'', CHR ''4'', CHR '' '', CHR ''f'', CHR ''o'', CHR ''o'', CHR 0x00, CHR ''b'', CHR ''l'', CHR ''o'', CHR ''b'', CHR '' '', CHR ''1'', CHR 0x00, CHR ''A'', CHR 0x00, CHR 0x00, CHR 0x00, CHR 0x00, CHR 0x00, CHR 0x00, CHR 0x00, CHR 0x00, CHR 0x00, CHR 0x00, CHR 0x00, CHR 0x00, CHR ''4'', CHR ''0'', CHR ''0'', CHR ''0'', CHR ''0'', CHR '' '', CHR ''f'', CHR ''o'', CHR ''o'', CHR ''-'', CHR ''b'', CHR ''a'', CHR ''r'', CHR 0x00, CHR ''t'', CHR ''r'', CHR ''e'', CHR ''e'', CHR '' '', CHR ''0'', CHR 0x00, CHR 0x00, CHR 0x00, CHR 0x00, CHR 0x00, CHR 0x00, CHR 0x00, CHR 0x00, CHR 0x00, CHR 0x00, CHR 0x00, CHR 0x00, CHR 0x00, CHR 0x00]))]))
   \<and> (\<exists>items entries.
          set items = set [''foo-bar'', ''foo'', ''.git''] - {''.git''}
        \<and> length items = length (filter (\<lambda>x. x \<noteq> ''.git'') [''foo-bar'', ''foo'', ''.git''])
        \<and> sorted (map (tree_sort_key foo_file_tree [''repo'']) items)
        \<and> list_all2 tree_entry_of items entries
        \<and> ''747265652036350031303036343420666f6f0062'' =
            sha1_hexdigest toy_codec (framed ''tree'' (concat entries))
        \<and> read_bytes (object_path [''repo''] ''747265652036350031303036343420666f6f0062'')
            (foo_file_tree @
      [([''repo'', ''.git'', ''objects''], Dir),
       ([''repo'', ''.git'', ''objects'', ''62''], Dir),
       ([''repo'', ''.git'', ''objects'', ''62'', ''6c6f6220310041000000000000000000000000''], File ([CHR ''x'', CHR 0x01, CHR ''b'', CHR ''l'', CHR ''o'', CHR ''b'', CHR '' '', CHR ''1'', CHR 0x00, CHR ''A''])),
       ([''repo'', ''.git'', ''objects'', ''74''], Dir),
       ([''repo'', ''.git'', ''objects'', ''74'', ''72656520300000000000000000000000000000''], File ([CHR ''x'', CHR 0x9C, CHR ''t'', CHR ''r'', CHR ''e'', CHR ''e'', CHR '' '', CHR ''0'', CHR 0x00])),
       ([''repo'', ''.git'', ''objects'', ''74'', ''7265652036350031303036343420666f6f0062''], File ([CHR ''x'', CHR 0x9C, CHR ''t'', CHR ''r'', CHR ''e'', CHR ''e'', CHR '' '', CHR ''6'', CHR ''5'', CHR 0x00, CHR ''1'', CHR ''0'', CHR ''0'', CHR ''6'', CHR ''4'', CHR ''4'', CHR '' '', CHR ''f'', CHR ''o'', CHR ''o'', CHR 0x00, CHR ''b'', CHR ''l'', CHR ''o'', CHR ''b'', CHR '' '', CHR ''1'', CHR 0x00, CHR ''A'', CHR 0x00, CHR 0x00, CHR 0x00, CHR 0x00, CHR 0x00, CHR 0x00, CHR 0x00, CHR 0x00, CHR 0x00, CHR 0x00, CHR 0x00, CHR 0x00, CHR ''4'', CHR ''0'', CHR ''0'', CHR ''0'', CHR ''0'', CHR '' '', CHR ''f'', CHR ''o'', CHR ''o'', CHR ''-'', CHR ''b'', CHR ''a'', CHR ''r'', CHR 0x00, CHR ''t'', CHR ''r'', CHR ''e'', CHR ''e'', CHR '' '', CHR ''0'', CHR 0x00, CHR 0x00, CHR 0x00, CHR 0x00, CHR 0x00, CHR 0x00, CHR 0x00, CHR 0x00, CHR 0x00, CHR 0x00, CHR 0x00, CHR 0x00, CHR 0x00, CHR 0x00]))]) =
            Inr (zlib_compress toy_codec Z_DEFAULT_COMPRESSION (framed ''tree'' (concat entries))))"
proof -
  have "\<not> isfile foo_file_tree [''repo'']"
    by (simp add: isfile_def stat_def plain_name_def foo_file_tree_def)
  moreover have "listdir foo_file_tree [''repo''] = Inr [''foo-bar'', ''foo'', ''.git'']"
    by (simp add: listdir_def stat_def plain_name_def foo_file_tree_def)
  ultimately have h: "\<not> isfile foo_file_tree [''repo'']
      \<and> listdir foo_file_tree [''repo''] = Inr [''foo-bar'', ''foo'', ''.git'']
      \<and> write_tree toy_codec [''repo''] (Suc (Suc 0)) [''repo''] foo_file_tree =
          Inr (''747265652036350031303036343420666f6f0062'',
      foo_file_tree @
      [([''repo'', ''.git'', ''objects''], Dir),
       ([''repo'', ''.git'', ''objects'', ''62''], Dir),
       ([''repo'', ''.git'', ''objects'', ''62'', ''6c6f6220310041000000000000000000000000''], File ([CHR ''x'', CHR 0x01, CHR ''b'', CHR ''l'', CHR ''o'', CHR ''b'', CHR '' '', CHR ''1'', CHR 0x00, CHR ''A''])),
       ([''repo'', ''.git'', ''objects'', ''74''], Dir),
       ([''repo'', ''.git'', ''objects'', ''74'', ''72656520300000000000000000000000000000''], File ([CHR ''x'', CHR 0x9C, CHR ''t'', CHR ''r'', CHR ''e'', CHR ''e'', CHR '' '', CHR ''0'', CHR 0x00])),
       ([''repo'', ''.git'', ''objects'', ''74'', ''7265652036350031303036343420666f6f0062''], File ([CHR ''x'', CHR 0x9C, CHR ''t'', CHR ''r'', CHR ''e'', CHR ''e'', CHR '' '', CHR ''6'', CHR ''5'', CHR 0x00, CHR ''1'', CHR ''0'', CHR ''0'', CHR ''6'', CHR ''4'', CHR ''4'', CHR '' '', CHR ''f'', CHR ''o'', CHR ''o'', CHR 0x00, CHR ''b'', CHR ''l'', CHR ''o'', CHR ''b'', CHR '' '', CHR ''1'', CHR 0x00, CHR ''A'', CHR 0x00, CHR 0x00, CHR 0x00, CHR 0x00, CHR 0x00, CHR 0x00, CHR 0x00, CHR 0x00, CHR 0x00, CHR 0x00, CHR 0x00, CHR 0x00, CHR ''4'', CHR ''0'', CHR ''0'', CHR ''0'', CHR ''0'', CHR '' '', CHR ''f'', CHR ''o'', CHR ''o'', CHR ''-'', CHR ''b'', CHR ''a'', CHR ''r'', CHR 0x00, CHR ''t'', CHR ''r'', CHR ''e'', CHR ''e'', CHR '' '', CHR ''0'', CHR 0x00, CHR 0x00, CHR 0x00, CHR 0x00, CHR 0x00, CHR 0x00, CHR 0x00, CHR 0x00, CHR 0x00, CHR 0x00, CHR 0x00, CHR 0x00, CHR 0x00, CHR 0x00]))])"
    using foo_file_tree_written by (intro conjI)
  from tree_entries_in_key_order [THEN conjunct1, rule_format, OF h] h show ?thesis
    by (rule conjI [rotated])
qed

text \<open>
  Claim C9. The tree object of a directory is written by \<^verbatim>\<open>write_tree\<close> itself with
  \<^verbatim>\<open>zlib.compress\<close> at its default level, \<open>-1\<close>; the blob of a regular file goes
  through \<^verbatim>\<open>create_object\<close> and is compressed at \<^verbatim>\<open>Z_BEST_SPEED\<close>, level 1. So the
  trees of the capture path are not written at the fastest level.
\<close>

theorem tree_object_written_at_default_level:
  "(\<not> isfile fs path \<and> listdir fs path = Inr names
      \<and> write_tree cd cwd (Suc n) path fs = Inr (sha, fs')
    \<longrightarrow> (\<exists>tree_entries.
          sha = sha1_hexdigest cd (framed ''tree'' tree_entries)
        \<and> read_bytes (object_path cwd sha) fs' =
            Inr (zlib_compress cd Z_DEFAULT_COMPRESSION (framed ''tree'' tree_entries))))
   \<and> (isfile fs path \<and> read_bytes path fs = Inr data
      \<and> write_tree cd cwd (Suc n) path fs = Inr (sha, fs')
    \<longrightarrow> sha = sha1_hexdigest cd (framed ''blob'' data)
        \<and> read_bytes (object_path cwd sha) fs' =
            Inr (zlib_compress cd Z_BEST_SPEED (framed ''blob'' data)))
   \<and> Z_DEFAULT_COMPRESSION \<noteq> Z_BEST_SPEED"
proof (intro conjI impI)
  assume "\<not> isfile fs path \<and> listdir fs path = Inr names
      \<and> write_tree cd cwd (Suc n) path fs = Inr (sha, fs')"
  with write_tree_directory [of fs path names cd cwd n sha fs']
  show "\<exists>tree_entries.
          sha = sha1_hexdigest cd (framed ''tree'' tree_entries)
        \<and> read_bytes (object_path cwd sha) fs' =
            Inr (zlib_compress cd Z_DEFAULT_COMPRESSION (framed ''tree'' tree_entries))"
    by blast
next
  assume a: "isfile fs path \<and> read_bytes path fs = Inr data
      \<and> write_tree cd cwd (Suc n) path fs = Inr (sha, fs')"
  then have "create_object cd ''blob'' data cwd fs = Inr (sha, fs')"
    by (elim conjE) simp
  note c = create_object_Inr [OF this]
  from c(1) show "sha = sha1_hexdigest cd (framed ''blob'' data)" .
  show "read_bytes (object_path cwd sha) fs' =
      Inr (zlib_compress cd Z_BEST_SPEED (framed ''blob'' data))"
    by (rule stored_object_readable [OF c(3) object_path_nonempty c(4) c(5)])
next
  show "Z_DEFAULT_COMPRESSION \<noteq> Z_BEST_SPEED"
    by (simp add: Z_DEFAULT_COMPRESSION_def Z_BEST_SPEED_def)
qed

theorem tree_object_written_at_default_level_witness:
  "(\<not> isfile (foo_file_tree @
      [([''repo'', ''.git'', ''objects''], Dir),
       ([''repo'', ''.git'', ''objects'', ''62''], Dir),
       ([''repo'', ''.git'', ''objects'', ''62'', ''6c6f6220310041000000000000000000000000''], File ([CHR ''x'', CHR 0x01, CHR ''b'', CHR ''l'', CHR ''o'', CHR ''b'', CHR '' '', CHR ''1'', CHR 0x00, CHR ''A'']))]) [''repo'', ''foo-bar'']
      \<and> listdir (foo_file_tree @
      [([''repo'', ''.git'', ''objects''], Dir),
       ([''repo'', ''.git'', ''objects'', ''62''], Dir),
       ([''repo'', ''.git'', ''objects'', ''62'', ''6c6f6220310041000000000000000000000000''], File ([CHR ''x'', CHR 0x01, CHR ''b'', CHR ''l'', CHR ''o'', CHR ''b'', CHR '' '', CHR ''1'', CHR 0x00, CHR ''A'']))]) [''repo'', ''foo-bar''] = Inr []
      \<and> write_tree toy_codec [''repo''] (Suc 0) [''repo'', ''foo-bar'']
          (foo_file_tree @
      [([''repo'', ''.git'', ''objects''], Dir),
       ([''repo'', ''.git'', ''objects'', ''62''], Dir),
       ([''repo'', ''.git'', ''objects'', ''62'', ''6c6f6220310041000000000000000000000000''], File ([CHR ''x'', CHR 0x01, CHR ''b'', CHR ''l'', CHR ''o'', CHR ''b'', CHR '' '', CHR ''1'', CHR 0x00, CHR ''A'']))]) =
          Inr (''7472656520300000000000000000000000000000'',
      foo_file_tree @
      [([''repo'', ''.git'', ''objects''], Dir),
       ([''repo'', ''.git'', ''objects'', ''62''], Dir),
       ([''repo'', ''.git'', ''objects'', ''62'', ''6c6f6220310041000000000000000000000000''], File ([CHR ''x'', CHR 0x01, CHR ''b'', CHR ''l'', CHR ''o'', CHR ''b'', CHR '' '', CHR ''1'', CHR 0x00, CHR ''A''])),
       ([''repo'', ''.git'', ''objects'', ''74''], Dir),
       ([''repo'', ''.git'', ''objects'', ''74'', ''72656520300000000000000000000000000000''], File ([CHR ''x'', CHR 0x9C, CHR ''t'', CHR ''r'', CHR ''e'', CHR ''e'', CHR '' '', CHR ''0'', CHR 0x00]))]))
   \<and> (\<exists>tree_entries.
          ''7472656520300000000000000000000000000000'' =
            sha1_hexdigest toy_codec (framed ''tree'' tree_entries)
        \<and> read_bytes (object_path [''repo''] ''7472656520300000000000000000000000000000'')
            (foo_file_tree @
      [([''repo'', ''.git'', ''objects''], Dir),
       ([''repo'', ''.git'', ''objects'', ''62''], Dir),
       ([''repo'', ''.git'', ''objects'', ''62'', ''6c6f6220310041000000000000000000000000''], File ([CHR ''x'', CHR 0x01, CHR ''b'', CHR ''l'', CHR ''o'', CHR ''b'', CHR '' '', CHR ''1'', CHR 0x00, CHR ''A''])),
       ([''repo'', ''.git'', ''objects'', ''74''], Dir),
       ([''repo'', ''.git'', ''objects'', ''74'', ''72656520300000000000000000000000000000''], File ([CHR ''x'', CHR 0x9C, CHR ''t'', CHR ''r'', CHR ''e'', CHR ''e'', CHR '' '', CHR ''0'', CHR 0x00]))]) =
            Inr (zlib_compress toy_codec Z_DEFAULT_COMPRESSION (framed ''tree'' tree_entries)))
   \<and> (isfile foo_file_tree [''repo'', ''foo'']
      \<and> read_bytes [''repo'', ''foo''] foo_file_tree = Inr ''A''
      \<and> write_tree toy_codec [''repo''] (Suc 0) [''repo'', ''foo''] foo_file_tree =
          Inr (''626c6f6220310041000000000000000000000000'',
      foo_file_tree @
      [([''repo'', ''.git'', ''objects''], Dir),
       ([''repo'', ''.git'', ''objects'', ''62''], Dir),
       ([''repo'', ''.git'', ''objects'', ''62'', ''6c6f6220310041000000000000000000000000''], File ([CHR ''x'', CHR 0x01, CHR ''b'', CHR ''l'', CHR ''o'', CHR ''b'', CHR '' '', CHR ''1'', CHR 0x00, CHR ''A'']))]))
   \<and> ''626c6f6220310041000000000000000000000000'' = sha1_hexdigest toy_codec (framed ''blob'' ''A'')
   \<and> read_bytes (object_path [''repo''] ''626c6f6220310041000000000000000000000000'')
        (foo_file_tree @
      [([''repo'', ''.git'', ''objects''], Dir),
       ([''repo'', ''.git'', ''objects'', ''62''], Dir),
       ([''repo'', ''.git'', ''objects'', ''62'', ''6c6f6220310041000000000000000000000000''], File ([CHR ''x'', CHR 0x01, CHR ''b'', CHR ''l'', CHR ''o'', CHR ''b'', CHR '' '', CHR ''1'', CHR 0x00, CHR ''A'']))]) =
        Inr (zlib_compress toy_codec Z_BEST_SPEED (framed ''blob'' ''A''))"
proof -
  have "\<not> isfile (foo_file_tree @
      [([''repo'', ''.git'', ''objects''], Dir),
       ([''repo'', ''.git'', ''objects'', ''62''], Dir),
       ([''repo'', ''.git'', ''objects'', ''62'', ''6c6f6220310041000000000000000000000000''], File ([CHR ''x'', CHR 0x01, CHR ''b'', CHR ''l'', CHR ''o'', CHR ''b'', CHR '' '', CHR ''1'', CHR 0x00, CHR ''A'']))]) [''repo'', ''foo-bar'']"
    by (simp add: isfile_def stat_def plain_name_def foo_file_tree_def)
  moreover have "listdir (foo_file_tree @
      [([''repo'', ''.git'', ''objects''], Dir),
       ([''repo'', ''.git'', ''objects'', ''62''], Dir),
       ([''repo'', ''.git'', ''objects'', ''62'', ''6c6f6220310041000000000000000000000000''], File ([CHR ''x'', CHR 0x01, CHR ''b'', CHR ''l'', CHR ''o'', CHR ''b'', CHR '' '', CHR ''1'', CHR 0x00, CHR ''A'']))]) [''repo'', ''foo-bar''] = Inr []"
    by (simp add: listdir_def stat_def plain_name_def foo_file_tree_def)
  ultimately have t: "\<not> isfile (foo_file_tree @
      [([''repo'', ''.git'', ''objects''], Dir),
       ([''repo'', ''.git'', ''objects'', ''62''], Dir),
       ([''repo'', ''.git'', ''objects'', ''62'', ''6c6f6220310041000000000000000000000000''], File ([CHR ''x'', CHR 0x01, CHR ''b'', CHR ''l'', CHR ''o'', CHR ''b'', CHR '' '', CHR ''1'', CHR 0x00, CHR ''A'']))]) [''repo'', ''foo-bar'']
      \<and> listdir (foo_file_tree @
      [([''repo'', ''.git'', ''objects''], Dir),
       ([''repo'', ''.git'', ''objects'', ''62''], Dir),
       ([''repo'', ''.git'', ''objects'', ''62'', ''6c6f6220310041000000000000000000000000''], File ([CHR ''x'', CHR 0x01, CHR ''b'', CHR ''l'', CHR ''o'', CHR ''b'', CHR '' '', CHR ''1'', CHR 0x00, CHR ''A'']))]) [''repo'', ''foo-bar''] = Inr []
      \<and> write_tree toy_codec [''repo''] (Suc 0) [''repo'', ''foo-bar'']
          (foo_file_tree @
      [([''repo'', ''.git'', ''objects''], Dir),
       ([''repo'', ''.git'', ''objects'', ''62''], Dir),
       ([''repo'', ''.git'', ''objects'', ''62'', ''6c6f6220310041000000000000000000000000''], File ([CHR ''x'', CHR 0x01, CHR ''b'', CHR ''l'', CHR ''o'', CHR ''b'', CHR '' '', CHR ''1'', CHR 0x00, CHR ''A'']))]) =
          Inr (''7472656520300000000000000000000000000000'',
      foo_file_tree @
      [([''repo'', ''.git'', ''objects''], Dir),
       ([''repo'', ''.git'', ''objects'', ''62''], Dir),
       ([''repo'', ''.git'', ''objects'', ''62'', ''6c6f6220310041000000000000000000000000''], File ([CHR ''x'', CHR 0x01, CHR ''b'', CHR ''l'', CHR ''o'', CHR ''b'', CHR '' '', CHR ''1'', CHR 0x00, CHR ''A''])),
       ([''repo'', ''.git'', ''objects'', ''74''], Dir),
       ([''repo'', ''.git'', ''objects'', ''74'', ''72656520300000000000000000000000000000''], File ([CHR ''x'', CHR 0x9C, CHR ''t'', CHR ''r'', CHR ''e'', CHR ''e'', CHR '' '', CHR ''0'', CHR 0x00]))])"
    using foo_bar_written by (intro conjI)
  have "isfile foo_file_tree [''repo'', ''foo'']"
    by (simp add: isfile_def stat_def plain_name_def foo_file_tree_def)
  moreover have "read_bytes [''repo'', ''foo''] foo_file_tree = Inr ''A''"
    by (simp add: read_bytes_def stat_def plain_name_def foo_file_tree_def)
  ultimately have b: "isfile foo_file_tree [''repo'', ''foo'']
      \<and> read_bytes [''repo'', ''foo''] foo_file_tree = Inr ''A''
      \<and> write_tree toy_codec [''repo''] (Suc 0) [''repo'', ''foo''] foo_file_tree =
          Inr (''626c6f6220310041000000000000000000000000'',
      foo_file_tree @
      [([''repo'', ''.git'', ''objects''], Dir),
       ([''repo'', ''.git'', ''objects'', ''62''], Dir),
       ([''repo'', ''.git'', ''objects'', ''62'', ''6c6f6220310041000000000000000000000000''], File ([CHR ''x'', CHR 0x01, CHR ''b'', CHR ''l'', CHR ''o'', CHR ''b'', CHR '' '', CHR ''1'', CHR 0x00, CHR ''A'']))])"
    using foo_blob_written by (intro conjI)
  from tree_object_written_at_default_level [THEN conjunct1, rule_format, OF t]
    tree_object_written_at_default_level [THEN conjunct2, THEN conjunct1, rule_format, OF b] t b
  show ?thesis
    by (intro conjI) blast+
qed

section \<open>Properties of the checkout renderer\<close>








lemma checkout_entry_d:
  "next_entry (''40000 d'' @ CHR 0x00 # ''dddddddddddddddddddd'' @ ''100644 a'' @ CHR 0x00 # ''bbbbbbbbbbbbbbbbbbbb'') =
     Inr (''40000'', ''d'', ''6464646464646464646464646464646464646464'', ''100644 a'' @ CHR 0x00 # ''bbbbbbbbbbbbbbbbbbbb'')"
  by (simp add: next_entry_def split_once_def hex_def digit_char_def)












end
